theory Spec2Isabelle
  imports Complex_Main "HOL-Library.Word" "HOL-Library.Log_Nat"
begin

section \<open>JavaScript numbers\<close>

text \<open>
  The repository holds two variants of one page script: \<open>src/script.js\<close>, which tints a
  mask and an outline image (the asset script, suffix \<open>_script\<close>), and
  \<open>src/unnamed/part_000\<close>, which draws the chin with ellipses (the procedural script,
  suffix \<open>_part0\<close>). Functions that exist in both carry the suffix of their file.

  Every quantity of the two scripts is a JavaScript number, an IEEE 754 double: a finite
  value, \<open>NaN\<close>, \<open>Infinity\<close> or \<open>-Infinity\<close>. The scripts validate none of their
  inputs, so the three special values are part of the model. A finite number is held by its
  value, a real. Every arithmetic operation and every decimal literal gives the double
  nearest to the exact result, a tie going to the even significand and a result beyond the
  largest double to an infinity. The sign of zero is not modelled.
\<close>

datatype jsnum = Fin real | PosInf | NegInf | NaN

subsection \<open>Rounding to the nearest double\<close>

text \<open>
  \<open>roundHalfEven\<close> rounds a real to the nearest integer, a tie to the even one.
  \<open>binade x\<close> is the exponent \<open>k\<close> with \<open>2^k \<le> |x| < 2^(k+1)\<close>. A double has a
  significand of 53 bits and an exponent of at least \<open>-1022\<close>, so the doubles around \<open>x\<close>
  are the multiples of \<open>2^(ulpExponent x)\<close>; \<open>nearest x\<close> is the closest of them, and
  \<open>double x\<close> is that value unless it has left the range of the finite doubles.
\<close>

definition roundHalfEven :: "real \<Rightarrow> int" where
  "roundHalfEven x =
     (if x - of_int \<lfloor>x\<rfloor> < 1 / 2 then \<lfloor>x\<rfloor>
      else if 1 / 2 < x - of_int \<lfloor>x\<rfloor> then \<lfloor>x\<rfloor> + 1
      else if even \<lfloor>x\<rfloor> then \<lfloor>x\<rfloor> else \<lfloor>x\<rfloor> + 1)"

definition binade :: "real \<Rightarrow> int" where
  "binade x = (if 1 \<le> \<bar>x\<bar> then bitlen \<lfloor>\<bar>x\<bar>\<rfloor> - 1 else - bitlen (\<lceil>1 / \<bar>x\<bar>\<rceil> - 1))"

definition ulpExponent :: "real \<Rightarrow> int" where
  "ulpExponent x = max (binade x) (- 1022) - 52"

definition nearest :: "real \<Rightarrow> real" where
  "nearest x = of_int (roundHalfEven (x / 2 powi ulpExponent x)) * 2 powi ulpExponent x"

definition double :: "real \<Rightarrow> jsnum" where
  "double x =
     (if x = 0 then Fin 0
      else if 2 powi 1024 \<le> \<bar>nearest x\<bar> then (if 0 < x then PosInf else NegInf)
      else Fin (nearest x))"

subsection \<open>Arithmetic and comparison\<close>

instantiation jsnum :: "{ord, plus, uminus, minus, times, inverse}"
begin

fun less_jsnum :: "jsnum \<Rightarrow> jsnum \<Rightarrow> bool" where
  "less_jsnum (Fin a) (Fin b) = (a < b)"
| "less_jsnum (Fin a) PosInf = True"
| "less_jsnum NegInf (Fin b) = True"
| "less_jsnum NegInf PosInf = True"
| "less_jsnum _ _ = False"

definition less_eq_jsnum :: "jsnum \<Rightarrow> jsnum \<Rightarrow> bool" where
  "less_eq_jsnum a b = (a < b \<or> (a = b \<and> a \<noteq> NaN))"

fun plus_jsnum :: "jsnum \<Rightarrow> jsnum \<Rightarrow> jsnum" where
  "plus_jsnum NaN _ = NaN"
| "plus_jsnum _ NaN = NaN"
| "plus_jsnum (Fin a) (Fin b) = double (a + b)"
| "plus_jsnum PosInf NegInf = NaN"
| "plus_jsnum NegInf PosInf = NaN"
| "plus_jsnum PosInf _ = PosInf"
| "plus_jsnum _ PosInf = PosInf"
| "plus_jsnum NegInf _ = NegInf"
| "plus_jsnum _ NegInf = NegInf"

fun uminus_jsnum :: "jsnum \<Rightarrow> jsnum" where
  "uminus_jsnum (Fin a) = Fin (- a)"
| "uminus_jsnum PosInf = NegInf"
| "uminus_jsnum NegInf = PosInf"
| "uminus_jsnum NaN = NaN"

definition minus_jsnum :: "jsnum \<Rightarrow> jsnum \<Rightarrow> jsnum" where
  "minus_jsnum a b = a + (- b)"

text \<open>The sign of an infinite product; zero times infinity is \<open>NaN\<close>.\<close>

fun signedInf :: "real \<Rightarrow> jsnum" where
  "signedInf s = (if s = 0 then NaN else if 0 < s then PosInf else NegInf)"

fun times_jsnum :: "jsnum \<Rightarrow> jsnum \<Rightarrow> jsnum" where
  "times_jsnum NaN _ = NaN"
| "times_jsnum _ NaN = NaN"
| "times_jsnum (Fin a) (Fin b) = double (a * b)"
| "times_jsnum (Fin a) PosInf = signedInf a"
| "times_jsnum (Fin a) NegInf = signedInf (- a)"
| "times_jsnum PosInf (Fin b) = signedInf b"
| "times_jsnum NegInf (Fin b) = signedInf (- b)"
| "times_jsnum PosInf PosInf = PosInf"
| "times_jsnum NegInf NegInf = PosInf"
| "times_jsnum PosInf NegInf = NegInf"
| "times_jsnum NegInf PosInf = NegInf"

text \<open>
  Division. The scripts divide by the literals 2 and 3 and by a positive count only; a
  zero divisor is read as \<open>+0\<close>.
\<close>

fun divide_jsnum :: "jsnum \<Rightarrow> jsnum \<Rightarrow> jsnum" where
  "divide_jsnum NaN _ = NaN"
| "divide_jsnum _ NaN = NaN"
| "divide_jsnum (Fin a) (Fin b) = (if b = 0 then signedInf a else double (a / b))"
| "divide_jsnum (Fin a) _ = Fin 0"
| "divide_jsnum PosInf (Fin b) = (if 0 \<le> b then PosInf else NegInf)"
| "divide_jsnum NegInf (Fin b) = (if 0 \<le> b then NegInf else PosInf)"
| "divide_jsnum _ _ = NaN"

definition inverse_jsnum :: "jsnum \<Rightarrow> jsnum" where
  "inverse_jsnum a = divide (Fin 1) a"

instance ..

end

text \<open>
  \<open>Math.floor\<close>, \<open>Math.round\<close> (halves go up), \<open>Math.max\<close> and \<open>Math.min\<close>, all of them
  exact, and \<open>Math.PI\<close>, the double nearest to \<open>\<pi>\<close>.
\<close>

fun Math_floor :: "jsnum \<Rightarrow> jsnum" where
  "Math_floor (Fin a) = Fin (of_int \<lfloor>a\<rfloor>)"
| "Math_floor v = v"

fun Math_round :: "jsnum \<Rightarrow> jsnum" where
  "Math_round (Fin a) = Fin (of_int \<lfloor>a + 1 / 2\<rfloor>)"
| "Math_round v = v"

definition Math_max :: "jsnum \<Rightarrow> jsnum \<Rightarrow> jsnum" where
  "Math_max a b = (if a = NaN \<or> b = NaN then NaN else if a < b then b else a)"

definition Math_min :: "jsnum \<Rightarrow> jsnum \<Rightarrow> jsnum" where
  "Math_min a b = (if a = NaN \<or> b = NaN then NaN else if b < a then b else a)"

definition Math_PI :: jsnum where
  "Math_PI = Fin (884279719003555 / 281474976710656)"

text \<open>A number that is an integer in the closed range from \<open>lo\<close> to \<open>hi\<close>.\<close>

definition isIntIn :: "int \<Rightarrow> int \<Rightarrow> jsnum \<Rightarrow> bool" where
  "isIntIn lo hi v = (case v of Fin a \<Rightarrow> a = of_int \<lfloor>a\<rfloor> \<and> lo \<le> \<lfloor>a\<rfloor> \<and> \<lfloor>a\<rfloor> \<le> hi | _ \<Rightarrow> False)"

section \<open>The canvas and its pixel data\<close>

text \<open>
  The bitmap: a width, a height and four bytes per pixel. The two attributes are unsigned
  integers, and every engine bounds the side of a canvas far below \<open>2^24\<close> (the largest
  bound in use is 4 194 303 pixels), so an attribute is a word of 24 bits. \<open>cwidth\<close> and
  \<open>cheight\<close> are \<open>canvas.width\<close> and \<open>canvas.height\<close> as the scripts read them.
\<close>

record rgba =
  red :: "8 word"
  green :: "8 word"
  blue :: "8 word"
  alpha :: "8 word"

record canvas =
  widthAttr :: "24 word"
  heightAttr :: "24 word"
  cpixel :: "nat \<Rightarrow> nat \<Rightarrow> rgba"

definition cwidth :: "canvas \<Rightarrow> nat" where
  "cwidth cv = unat (widthAttr cv)"

definition cheight :: "canvas \<Rightarrow> nat" where
  "cheight cv = unat (heightAttr cv)"

datatype js_error = TypeError | IndexSizeError | InvalidStateError | ReferenceError | DetectorError

definition transparentBlack :: rgba where
  "transparentBlack = \<lparr>red = 0, green = 0, blue = 0, alpha = 0\<rparr>"

definition pixelAt :: "canvas \<Rightarrow> int \<Rightarrow> int \<Rightarrow> rgba" where
  "pixelAt cv px py =
     (if 0 \<le> px \<and> px < int (cwidth cv) \<and> 0 \<le> py \<and> py < int (cheight cv)
      then cpixel cv (nat px) (nat py) else transparentBlack)"

definition pixelBytes :: "rgba \<Rightarrow> 8 word list" where
  "pixelBytes p = [red p, green p, blue p, alpha p]"

definition imageBytes :: "canvas \<Rightarrow> int \<Rightarrow> int \<Rightarrow> nat \<Rightarrow> nat \<Rightarrow> 8 word list" where
  "imageBytes cv x y w h =
     concat (map (\<lambda>row. concat (map (\<lambda>col. pixelBytes (pixelAt cv (x + int col) (y + int row)))
                                     [0..<w])) [0..<h])"

text \<open>
  The conversion of an argument to the platform's \<open>long\<close>: a finite number is truncated
  towards zero, any other value is rejected. The range of \<open>long\<close> is left out: the
  scripts pass values clamped to the canvas, whose sides are below \<open>2^24\<close>.
\<close>

fun toLong :: "jsnum \<Rightarrow> int option" where
  "toLong (Fin a) = Some (if 0 \<le> a then \<lfloor>a\<rfloor> else \<lceil>a\<rceil>)"
| "toLong _ = None"

text \<open>
  \<open>ctx.getImageData(sx, sy, sw, sh).data\<close>, the platform's operation: it throws on an
  argument that is not finite and on a zero width or height; a negative extent mirrors
  the rectangle; a pixel outside the canvas reads as transparent black. The result is
  the \<open>Uint8ClampedArray\<close>, row by row, four bytes per pixel.
\<close>

definition getImageData :: "canvas \<Rightarrow> jsnum \<Rightarrow> jsnum \<Rightarrow> jsnum \<Rightarrow> jsnum \<Rightarrow> js_error + 8 word list" where
  "getImageData cv sx sy sw sh =
     (case (toLong sx, toLong sy, toLong sw, toLong sh) of
        (Some x, Some y, Some w, Some h) \<Rightarrow>
          if w = 0 \<or> h = 0 then Inl IndexSizeError
          else Inr (imageBytes cv (if w < 0 then x + w else x) (if h < 0 then y + h else y)
                      (nat \<bar>w\<bar>) (nat \<bar>h\<bar>))
      | _ \<Rightarrow> Inl TypeError)"

text \<open>
  \<open>data[i]\<close> where it is used as a summand: past the end of the array the read gives
  \<open>undefined\<close>, which arithmetic turns into \<open>NaN\<close>.
\<close>

definition byteAt :: "8 word list \<Rightarrow> nat \<Rightarrow> jsnum" where
  "byteAt data i = (if i < length data then Fin (real (unat (data ! i))) else NaN)"

section \<open>computeAverageColor\<close>

text \<open>
  The colour object \<open>{ r, g, b }\<close> the function returns. In the loop of the procedural
  script the running sums, which the source calls \<open>r\<close>, \<open>g\<close> and \<open>b\<close> too, are
  \<open>rs\<close>, \<open>gs\<close> and \<open>bs\<close> here.
\<close>

record rgb =
  r :: jsnum
  g :: jsnum
  b :: jsnum

subsection \<open>The procedural script (src/unnamed/part_000)\<close>

text \<open>Lines 44 to 47: the clamped rectangle \<open>(sx, sy, sw, sh)\<close>.\<close>

definition sampleRect_part0 :: "canvas \<Rightarrow> jsnum \<Rightarrow> jsnum \<Rightarrow> jsnum \<Rightarrow> jsnum \<Rightarrow> jsnum \<times> jsnum \<times> jsnum \<times> jsnum" where
  "sampleRect_part0 cv x y w h =
     (let sx = Math_max (Fin 0) (Math_floor x);
          sy = Math_max (Fin 0) (Math_floor y);
          sw = Math_min (Fin (real (cwidth cv)) - sx) (Math_floor w);
          sh = Math_min (Fin (real (cheight cv)) - sy) (Math_floor h)
      in (sx, sy, sw, sh))"

text \<open>Lines 55 to 60: the loop over every 40th byte.\<close>

function sumLoop_part0 :: "8 word list \<Rightarrow> nat \<Rightarrow> jsnum \<times> jsnum \<times> jsnum \<times> nat \<Rightarrow> jsnum \<times> jsnum \<times> jsnum \<times> nat" where
  "sumLoop_part0 data i (rs, gs, bs, count) =
     (if i < length data
      then sumLoop_part0 data (i + 40)
             (rs + byteAt data i, gs + byteAt data (i + 1), bs + byteAt data (i + 2), count + 1)
      else (rs, gs, bs, count))"
  by pat_completeness auto
termination
  by (relation "measure (\<lambda>(data, i, acc). length data - i)") auto

declare sumLoop_part0.simps [simp del]

definition default_part0 :: rgb where
  "default_part0 = \<lparr>r = Fin 200, g = Fin 160, b = Fin 140\<rparr>"

definition computeAverageColor_part0 :: "canvas \<Rightarrow> jsnum \<Rightarrow> jsnum \<Rightarrow> jsnum \<Rightarrow> jsnum \<Rightarrow> js_error + rgb" where
  "computeAverageColor_part0 cv x y w h =
     (case sampleRect_part0 cv x y w h of (sx, sy, sw, sh) \<Rightarrow>
        if sw \<le> Fin 0 \<or> sh \<le> Fin 0 then Inr default_part0
        else (case getImageData cv sx sy sw sh of
                Inl e \<Rightarrow> Inl e
              | Inr data \<Rightarrow>
                  (case sumLoop_part0 data 0 (Fin 0, Fin 0, Fin 0, 0) of (rs, gs, bs, count) \<Rightarrow>
                     if count = 0 then Inr default_part0
                     else Inr \<lparr>r = Math_min (Fin 255) (Math_round (rs / Fin (real count) + Fin 10)),
                               g = Math_min (Fin 255) (Math_round (gs / Fin (real count) + Fin 10)),
                               b = Math_min (Fin 255) (Math_round (bs / Fin (real count) + Fin 10))\<rparr>)))"

subsection \<open>The asset script (src/script.js)\<close>

text \<open>Lines 58 to 61: the clamped rectangle; only the top 40% of the height is kept.\<close>

definition sampleRect_script :: "canvas \<Rightarrow> jsnum \<Rightarrow> jsnum \<Rightarrow> jsnum \<Rightarrow> jsnum \<Rightarrow> jsnum \<times> jsnum \<times> jsnum \<times> jsnum" where
  "sampleRect_script cv x y w h =
     (let sx = Math_max (Fin 0) (Math_floor x);
          sy = Math_max (Fin 0) (Math_floor y);
          sw = Math_min (Fin (real (cwidth cv)) - sx) (Math_floor w);
          sh = Math_min (Fin (real (cheight cv)) - sy) (Math_floor (h * double 0.4))
      in (sx, sy, sw, sh))"

text \<open>Lines 68 to 80: the loop, with the brightness filter.\<close>

function sumLoop_script :: "8 word list \<Rightarrow> nat \<Rightarrow> jsnum \<times> jsnum \<times> jsnum \<times> nat \<Rightarrow> jsnum \<times> jsnum \<times> jsnum \<times> nat" where
  "sumLoop_script data i (rSum, gSum, bSum, count) =
     (if i < length data
      then (let r = byteAt data i;
                g = byteAt data (i + 1);
                b = byteAt data (i + 2);
                brightness = (r + g + b) / Fin 3
            in if Fin 40 < brightness \<and> brightness < Fin 230
               then sumLoop_script data (i + 40) (rSum + r, gSum + g, bSum + b, count + 1)
               else sumLoop_script data (i + 40) (rSum, gSum, bSum, count))
      else (rSum, gSum, bSum, count))"
  by pat_completeness auto
termination
  by (relation "measure (\<lambda>(data, i, acc). length data - i)") auto

declare sumLoop_script.simps [simp del]

definition default_script :: rgb where
  "default_script = \<lparr>r = Fin 220, g = Fin 160, b = Fin 140\<rparr>"

definition computeAverageColor_script :: "canvas \<Rightarrow> jsnum \<Rightarrow> jsnum \<Rightarrow> jsnum \<Rightarrow> jsnum \<Rightarrow> js_error + rgb" where
  "computeAverageColor_script cv x y w h =
     (case sampleRect_script cv x y w h of (sx, sy, sw, sh) \<Rightarrow>
        if sw \<le> Fin 0 \<or> sh \<le> Fin 0 then Inr default_script
        else (case getImageData cv sx sy sw sh of
                Inl e \<Rightarrow> Inl e
              | Inr data \<Rightarrow>
                  (case sumLoop_script data 0 (Fin 0, Fin 0, Fin 0, 0) of (rSum, gSum, bSum, count) \<Rightarrow>
                     if count = 0 then Inr default_script
                     else (let rAvg = rSum / Fin (real count);
                               gAvg = gSum / Fin (real count);
                               bAvg = bSum / Fin (real count)
                           in Inr \<lparr>r = Math_min (Fin 255) (Math_round (rAvg + Fin 15)),
                                   g = Math_min (Fin 255) (Math_round (gAvg + Fin 15)),
                                   b = Math_min (Fin 255) (Math_round (bAvg + Fin 15))\<rparr>))))"

section \<open>Images, drawing and the platform\<close>

text \<open>
  An \<open>HTMLImageElement\<close> whose \<open>src\<close> has been set: still loading, decoded, or failed
  (the broken state). \<open>complete\<close> is false only while loading; \<open>naturalWidth\<close>,
  \<open>width\<close> and \<open>height\<close> are 0 unless the image is decoded.
\<close>

datatype img_state = Loading | Available | Broken

record image =
  istate :: img_state
  iwidth :: nat
  iheight :: nat
  ipixel :: "nat \<Rightarrow> nat \<Rightarrow> rgba"

definition img_complete :: "image \<Rightarrow> bool" where
  "img_complete img = (istate img \<noteq> Loading)"

definition naturalWidth :: "image \<Rightarrow> nat" where
  "naturalWidth img = (if istate img = Available then iwidth img else 0)"

definition img_width :: "image \<Rightarrow> nat" where
  "img_width img = (if istate img = Available then iwidth img else 0)"

definition img_height :: "image \<Rightarrow> nat" where
  "img_height img = (if istate img = Available then iheight img else 0)"

text \<open>
  A synchronous call either returns or throws; either way it leaves a canvas behind, in
  the second case the canvas as it was when the exception was raised.
\<close>

datatype 'a completion = Returned 'a | Thrown js_error 'a

text \<open>
  \<open>ctx.clearRect(0, 0, canvas.width, canvas.height); ctx.drawImage(uploadedImage, 0, 0)\<close>.
  \<open>drawImage\<close> throws on a broken image and draws nothing while the image is loading.
\<close>

definition redrawOriginal :: "image \<Rightarrow> canvas \<Rightarrow> canvas completion" where
  "redrawOriginal img cv =
     (let cleared = cv\<lparr>cpixel := (\<lambda>x y. transparentBlack)\<rparr>
      in case istate img of
           Broken \<Rightarrow> Thrown InvalidStateError cleared
         | Loading \<Rightarrow> Returned cleared
         | Available \<Rightarrow>
             Returned (cv\<lparr>cpixel := (\<lambda>x y. if x < iwidth img \<and> y < iheight img
                                               then ipixel img x y else transparentBlack)\<rparr>))"

datatype color = RGBA jsnum jsnum jsnum jsnum

text \<open>
  What the scripts paint on the main canvas. The pixels a painting operation produces are
  the platform's business: the model takes the renderer as a parameter \<open>paint\<close>.
\<close>

datatype paintop =
    FillStrokeEllipse jsnum jsnum jsnum jsnum color color
  | StrokeLine jsnum jsnum jsnum jsnum color
  | StrokeArc jsnum jsnum jsnum jsnum jsnum color
  | DrawChin color jsnum jsnum jsnum jsnum
  | DrawChinRotated color jsnum jsnum jsnum jsnum jsnum jsnum jsnum

fun isFinite :: "jsnum \<Rightarrow> bool" where
  "isFinite (Fin a) = True"
| "isFinite _ = False"

text \<open>
  \<open>ctx.ellipse\<close> and \<open>ctx.arc\<close> ignore a call with an argument that is not finite and
  throw \<open>IndexSizeError\<close> on a negative radius.
\<close>

definition ellipseThrows :: "jsnum \<Rightarrow> jsnum \<Rightarrow> jsnum \<Rightarrow> jsnum \<Rightarrow> bool" where
  "ellipseThrows cx cy rx ry =
     (isFinite cx \<and> isFinite cy \<and> isFinite rx \<and> isFinite ry \<and> (rx < Fin 0 \<or> ry < Fin 0))"

definition arcThrows :: "jsnum \<Rightarrow> jsnum \<Rightarrow> jsnum \<Rightarrow> bool" where
  "arcThrows cx cy rad = (isFinite cx \<and> isFinite cy \<and> isFinite rad \<and> rad < Fin 0)"

text \<open>\<open>Math.min(...xs)\<close> and \<open>Math.max(...xs)\<close>; of no arguments they are the infinities.\<close>

definition Math_min_list :: "jsnum list \<Rightarrow> jsnum" where
  "Math_min_list xs = foldr Math_min xs PosInf"

definition Math_max_list :: "jsnum list \<Rightarrow> jsnum" where
  "Math_max_list xs = foldr Math_max xs NegInf"

record point =
  ptx :: jsnum
  pty :: jsnum

text \<open>
  What the awaited promise of the detector does: its callback never fires, the executor
  throws, or it delivers results whose first landmark set is absent or present.
\<close>

datatype detection = Hangs | Rejects | Results "point list option"

text \<open>
  Everything a run reads besides the page: the parsed slider values, the two assets of
  the asset script, whether \<open>new FaceMesh(...)\<close> and \<open>setOptions\<close> succeed, and what the
  detection does.
\<close>

record inputs =
  intensityValue :: jsnum
  widthFactorValue :: jsnum
  offsetValue :: jsnum
  maskImg :: image
  outlineImg :: image
  faceMeshLoads :: bool
  faceMesh :: detection

record page =
  uploadedImage :: "image option"
  cnv :: canvas
  generateDisabled :: bool
  downloadDisabled :: bool

text \<open>How a run of the asynchronous click handler ends, and the page it leaves.\<close>

datatype run = Finished page | Escaped js_error page | Pending page

section \<open>The procedural script: drawing and the generate action\<close>

text \<open>\<open>drawBallsChin\<close>, lines 70 to 119.\<close>

definition drawBallsChin :: "(paintop \<Rightarrow> canvas \<Rightarrow> canvas) \<Rightarrow> canvas \<Rightarrow> jsnum \<Rightarrow> jsnum \<Rightarrow> jsnum \<Rightarrow> jsnum \<Rightarrow> color \<Rightarrow> color \<Rightarrow> canvas completion" where
  "drawBallsChin paint cv x y w h fillColor outlineColor =
     (if ellipseThrows (x + w * double 0.25) (y + h * double 0.6) (w * double 0.25) (h * double 0.4)
      then Thrown IndexSizeError cv
      else let cv1 = paint (FillStrokeEllipse (x + w * double 0.25) (y + h * double 0.6) (w * double 0.25)
                              (h * double 0.4) fillColor outlineColor) cv
      in if ellipseThrows (x + w * double 0.75) (y + h * double 0.6) (w * double 0.25) (h * double 0.4)
      then Thrown IndexSizeError cv1
      else let cv2 = paint (FillStrokeEllipse (x + w * double 0.75) (y + h * double 0.6) (w * double 0.25)
                              (h * double 0.4) fillColor outlineColor) cv1;
               cv3 = paint (StrokeLine (x + w / Fin 2) (y + h * double 0.35) (x + w / Fin 2)
                              (y + h * double 0.8) outlineColor) cv2
      in if arcThrows (x + w / Fin 2) (y + h * double 0.35) (w * double 0.25)
      then Thrown IndexSizeError cv3
      else Returned (paint (StrokeArc (x + w / Fin 2) (y + h * double 0.35) (w * double 0.25) Math_PI
                              (Fin 0) outlineColor) cv3))"

text \<open>\<open>drawFallback\<close>, lines 122 to 132.\<close>

definition drawFallback_part0 :: "(paintop \<Rightarrow> canvas \<Rightarrow> canvas) \<Rightarrow> inputs \<Rightarrow> canvas \<Rightarrow> canvas completion" where
  "drawFallback_part0 paint inp cv =
     (let intensity = intensityValue inp;
          w = Fin (real (cwidth cv)) * (double 0.3 + double 0.2 * intensity);
          h = Fin (real (cheight cv)) * (double 0.15 + double 0.1 * intensity);
          x = Fin (real (cwidth cv)) / Fin 2 - w / Fin 2;
          y = Fin (real (cheight cv)) * double 0.65
      in case computeAverageColor_part0 cv x y w h of
           Inl e \<Rightarrow> Thrown e cv
         | Inr c \<Rightarrow>
             drawBallsChin paint cv x y w h (RGBA (r c) (g c) (b c) (Fin 1))
               (RGBA (Fin 0) (Fin 0) (Fin 0) (Fin 1)))"

text \<open>The branch of the click handler for a landmark set, lines 166 to 184.\<close>

definition detectedPath_part0 :: "(paintop \<Rightarrow> canvas \<Rightarrow> canvas) \<Rightarrow> inputs \<Rightarrow> image \<Rightarrow> point list \<Rightarrow> canvas \<Rightarrow> canvas completion" where
  "detectedPath_part0 paint inp img landmarks cv =
     (let intensity = intensityValue inp;
          xs = map (\<lambda>pt. ptx pt * Fin (real (img_width img))) landmarks;
          ys = map (\<lambda>pt. pty pt * Fin (real (img_height img))) landmarks;
          minX = Math_min_list xs;
          maxX = Math_max_list xs;
          minY = Math_min_list ys;
          maxY = Math_max_list ys;
          faceW = maxX - minX;
          faceH = maxY - minY;
          overlayW = faceW * (double 0.45 + double 0.3 * intensity);
          overlayH = faceH * (double 0.25 + double 0.15 * intensity);
          x = (minX + maxX) / Fin 2 - overlayW / Fin 2;
          y = maxY - overlayH * double 0.4
      in case computeAverageColor_part0 cv x y overlayW overlayH of
           Inl e \<Rightarrow> Thrown e cv
         | Inr c \<Rightarrow>
             drawBallsChin paint cv x y overlayW overlayH (RGBA (r c) (g c) (b c) (Fin 1))
               (RGBA (Fin 0) (Fin 0) (Fin 0) (Fin 1)))"

text \<open>
  The \<open>try\<close> block, lines 156 to 185, once the awaited promise has settled, and the
  \<open>catch\<close> block, lines 186 to 189, which logs and draws the fallback on the canvas as the
  failed attempt left it.
\<close>

definition tryBlock_part0 :: "(paintop \<Rightarrow> canvas \<Rightarrow> canvas) \<Rightarrow> inputs \<Rightarrow> image \<Rightarrow> point list option \<Rightarrow> canvas \<Rightarrow> canvas completion" where
  "tryBlock_part0 paint inp img landmarks cv =
     (case landmarks of
        None \<Rightarrow> drawFallback_part0 paint inp cv
      | Some lms \<Rightarrow> detectedPath_part0 paint inp img lms cv)"

definition tryCatch_part0 :: "(paintop \<Rightarrow> canvas \<Rightarrow> canvas) \<Rightarrow> inputs \<Rightarrow> canvas completion \<Rightarrow> canvas completion" where
  "tryCatch_part0 paint inp attempt =
     (case attempt of
        Returned cv \<Rightarrow> Returned cv
      | Thrown err cv \<Rightarrow> drawFallback_part0 paint inp cv)"

text \<open>The click handler of the generate button, lines 135 to 193.\<close>

definition generateClick_part0 :: "(paintop \<Rightarrow> canvas \<Rightarrow> canvas) \<Rightarrow> inputs \<Rightarrow> page \<Rightarrow> run" where
  "generateClick_part0 paint inp s =
     (case uploadedImage s of
        None \<Rightarrow> Finished s
      | Some img \<Rightarrow>
          (let s1 = s\<lparr>generateDisabled := True, downloadDisabled := True\<rparr>
           in case redrawOriginal img (cnv s1) of
                Thrown e cv \<Rightarrow> Escaped e (s1\<lparr>cnv := cv\<rparr>)
              | Returned cv \<Rightarrow>
                  if \<not> faceMeshLoads inp then Escaped ReferenceError (s1\<lparr>cnv := cv\<rparr>)
                  else (case faceMesh inp of
                          Hangs \<Rightarrow> Pending (s1\<lparr>cnv := cv\<rparr>)
                        | settled \<Rightarrow>
                            (case tryCatch_part0 paint inp
                                    (case settled of
                                       Results landmarks \<Rightarrow> tryBlock_part0 paint inp img landmarks cv
                                     | _ \<Rightarrow> Thrown DetectorError cv) of
                               Thrown e cv' \<Rightarrow> Escaped e (s1\<lparr>cnv := cv'\<rparr>)
                             | Returned cv' \<Rightarrow>
                                 Finished (s1\<lparr>cnv := cv', generateDisabled := False,
                                               downloadDisabled := False\<rparr>)))))"

section \<open>The asset script: drawing and the generate action\<close>

text \<open>
  Lines 112 to 124 and 213 to 222: the offscreen canvas takes the mask, the tint and the
  outline. \<open>drawImage\<close> throws on a broken image.
\<close>

definition offscreenChin :: "image \<Rightarrow> image \<Rightarrow> js_error option" where
  "offscreenChin maskI outlineI =
     (if istate maskI = Broken then Some InvalidStateError
      else if istate outlineI = Broken then Some InvalidStateError
      else None)"

text \<open>
  \<open>ctx.drawImage(offCanvas, dx, dy, dw, dh)\<close> ignores a call with an argument that is
  not finite and throws on a source canvas without width or height.
\<close>

definition offCanvasThrows :: "image \<Rightarrow> jsnum \<Rightarrow> jsnum \<Rightarrow> jsnum \<Rightarrow> jsnum \<Rightarrow> bool" where
  "offCanvasThrows maskI dx dy dw dh =
     (isFinite dx \<and> isFinite dy \<and> isFinite dw \<and> isFinite dh \<and>
      (img_width maskI = 0 \<or> img_height maskI = 0))"

text \<open>\<open>drawTintedChin\<close>, lines 105 to 127.\<close>

definition drawTintedChin :: "(paintop \<Rightarrow> canvas \<Rightarrow> canvas) \<Rightarrow> inputs \<Rightarrow> canvas \<Rightarrow> jsnum \<Rightarrow> jsnum \<Rightarrow> jsnum \<Rightarrow> jsnum \<Rightarrow> color \<Rightarrow> canvas completion" where
  "drawTintedChin paint inp cv x y w h fillColor =
     (if \<not> img_complete (maskImg inp) \<or> \<not> img_complete (outlineImg inp) \<or>
         naturalWidth (maskImg inp) = 0
      then Returned cv
      else case offscreenChin (maskImg inp) (outlineImg inp) of
             Some e \<Rightarrow> Thrown e cv
           | None \<Rightarrow>
               if offCanvasThrows (maskImg inp) x y w h then Thrown InvalidStateError cv
               else Returned (paint (DrawChin fillColor x y w h) cv))"

text \<open>\<open>drawFallback\<close>, lines 130 to 143.\<close>

definition drawFallback_script :: "(paintop \<Rightarrow> canvas \<Rightarrow> canvas) \<Rightarrow> inputs \<Rightarrow> canvas \<Rightarrow> canvas completion" where
  "drawFallback_script paint inp cv =
     (let intensity = intensityValue inp;
          widthFactor = widthFactorValue inp;
          verticalOffset = offsetValue inp;
          w = Fin (real (cwidth cv)) * (double 0.3 + double 0.2 * intensity) * widthFactor;
          h = Fin (real (cheight cv)) * (double 0.15 + double 0.1 * intensity);
          x = Fin (real (cwidth cv)) / Fin 2 - w / Fin 2;
          y = Fin (real (cheight cv)) * double 0.65;
          y = y + verticalOffset * Fin (real (cheight cv))
      in case computeAverageColor_script cv x y w h of
           Inl e \<Rightarrow> Thrown e cv
         | Inr c \<Rightarrow> drawTintedChin paint inp cv x y w h (RGBA (r c) (g c) (b c) (Fin 1)))"

text \<open>
  Lines 199 to 231 of the click handler: the fill colour, the angle of the eye line and the
  rotated drawing of the tinted chin.
\<close>

definition drawRotatedChin :: "(paintop \<Rightarrow> canvas \<Rightarrow> canvas) \<Rightarrow> (jsnum \<Rightarrow> jsnum \<Rightarrow> jsnum) \<Rightarrow> inputs \<Rightarrow> image \<Rightarrow> point list \<Rightarrow> canvas \<Rightarrow> jsnum \<Rightarrow> jsnum \<Rightarrow> jsnum \<Rightarrow> jsnum \<Rightarrow> rgb \<Rightarrow> canvas completion" where
  "drawRotatedChin paint atan2 inp img landmarks cv x y overlayW overlayH c =
     (let fill = RGBA (r c) (g c) (b c) (Fin 1);
          angle = (if 263 < length landmarks
                   then (let leftEye = landmarks ! 33;
                             rightEye = landmarks ! 263;
                             dx = (ptx rightEye - ptx leftEye) * Fin (real (img_width img));
                             dy = (pty rightEye - pty leftEye) * Fin (real (img_height img))
                         in atan2 dy dx)
                   else Fin 0)
      in if \<not> img_complete (maskImg inp) \<or> \<not> img_complete (outlineImg inp) \<or>
            naturalWidth (maskImg inp) = 0
         then Returned cv
         else case offscreenChin (maskImg inp) (outlineImg inp) of
                Some e \<Rightarrow> Thrown e cv
              | None \<Rightarrow>
                  (let cx = x + overlayW / Fin 2;
                       cy = y + overlayH / Fin 2
                   in if offCanvasThrows (maskImg inp) (- overlayW / Fin 2)
                           (- overlayH / Fin 2) overlayW overlayH
                      then Thrown InvalidStateError cv
                      else Returned (paint (DrawChinRotated fill cx cy angle
                               (- overlayW / Fin 2) (- overlayH / Fin 2) overlayW overlayH)
                               cv)))"

text \<open>The branch of the click handler for a landmark set, lines 176 to 232.\<close>

definition detectedPath_script :: "(paintop \<Rightarrow> canvas \<Rightarrow> canvas) \<Rightarrow> (jsnum \<Rightarrow> jsnum \<Rightarrow> jsnum) \<Rightarrow> inputs \<Rightarrow> image \<Rightarrow> point list \<Rightarrow> canvas \<Rightarrow> canvas completion" where
  "detectedPath_script paint atan2 inp img landmarks cv =
     (let intensity = intensityValue inp;
          xs = map (\<lambda>pt. ptx pt * Fin (real (img_width img))) landmarks;
          ys = map (\<lambda>pt. pty pt * Fin (real (img_height img))) landmarks;
          minX = Math_min_list xs;
          maxX = Math_max_list xs;
          minY = Math_min_list ys;
          maxY = Math_max_list ys;
          faceW = maxX - minX;
          faceH = maxY - minY;
          widthFactor = widthFactorValue inp;
          verticalOffset = offsetValue inp;
          overlayW = faceW * (double 0.45 + double 0.3 * intensity) * widthFactor;
          overlayH = faceH * (double 0.25 + double 0.15 * intensity);
          x = (minX + maxX) / Fin 2 - overlayW / Fin 2;
          y = maxY - overlayH * double 0.4;
          y = y + verticalOffset * faceH
      in case computeAverageColor_script cv x y overlayW overlayH of
           Inl e \<Rightarrow> Thrown e cv
         | Inr c \<Rightarrow> drawRotatedChin paint atan2 inp img landmarks cv x y overlayW overlayH c)"

text \<open>The \<open>try\<close> block, lines 167 to 232, and the \<open>catch\<close> block, lines 233 to 236.\<close>

definition tryBlock_script :: "(paintop \<Rightarrow> canvas \<Rightarrow> canvas) \<Rightarrow> (jsnum \<Rightarrow> jsnum \<Rightarrow> jsnum) \<Rightarrow> inputs \<Rightarrow> image \<Rightarrow> point list option \<Rightarrow> canvas \<Rightarrow> canvas completion" where
  "tryBlock_script paint atan2 inp img landmarks cv =
     (case landmarks of
        None \<Rightarrow> drawFallback_script paint inp cv
      | Some lms \<Rightarrow> detectedPath_script paint atan2 inp img lms cv)"

definition tryCatch_script :: "(paintop \<Rightarrow> canvas \<Rightarrow> canvas) \<Rightarrow> inputs \<Rightarrow> canvas completion \<Rightarrow> canvas completion" where
  "tryCatch_script paint inp attempt =
     (case attempt of
        Returned cv \<Rightarrow> Returned cv
      | Thrown err cv \<Rightarrow> drawFallback_script paint inp cv)"

text \<open>The click handler of the generate button, lines 146 to 240.\<close>

definition generateClick_script :: "(paintop \<Rightarrow> canvas \<Rightarrow> canvas) \<Rightarrow> (jsnum \<Rightarrow> jsnum \<Rightarrow> jsnum) \<Rightarrow> inputs \<Rightarrow> page \<Rightarrow> run" where
  "generateClick_script paint atan2 inp s =
     (case uploadedImage s of
        None \<Rightarrow> Finished s
      | Some img \<Rightarrow>
          (let s1 = s\<lparr>generateDisabled := True, downloadDisabled := True\<rparr>
           in case redrawOriginal img (cnv s1) of
                Thrown e cv \<Rightarrow> Escaped e (s1\<lparr>cnv := cv\<rparr>)
              | Returned cv \<Rightarrow>
                  if \<not> faceMeshLoads inp then Escaped ReferenceError (s1\<lparr>cnv := cv\<rparr>)
                  else (case faceMesh inp of
                          Hangs \<Rightarrow> Pending (s1\<lparr>cnv := cv\<rparr>)
                        | settled \<Rightarrow>
                            (case tryCatch_script paint inp
                                    (case settled of
                                       Results landmarks \<Rightarrow>
                                         tryBlock_script paint atan2 inp img landmarks cv
                                     | _ \<Rightarrow> Thrown DetectorError cv) of
                               Thrown e cv' \<Rightarrow> Escaped e (s1\<lparr>cnv := cv'\<rparr>)
                             | Returned cv' \<Rightarrow>
                                 Finished (s1\<lparr>cnv := cv', generateDisabled := False,
                                               downloadDisabled := False\<rparr>)))))"

section \<open>The placement formulas as the specification words them\<close>

text \<open>
  Section 4.4 of the specification, in the arithmetic of JavaScript numbers: the bounding
  box is the minimum and maximum of the landmark coordinates scaled to pixel space, and
  width, height, x and y follow from it; \<open>widthFactor\<close> and \<open>verticalOffset\<close> enter only
  where present. Read in this arithmetic the formulas also say what they give for an empty
  landmark set and for slider values that are not finite.
\<close>

definition js_boundingBox :: "jsnum \<Rightarrow> jsnum \<Rightarrow> point list \<Rightarrow> jsnum \<times> jsnum \<times> jsnum \<times> jsnum" where
  "js_boundingBox imageWidth imageHeight landmarks =
     (Math_min_list (map (\<lambda>p. ptx p * imageWidth) landmarks),
      Math_max_list (map (\<lambda>p. ptx p * imageWidth) landmarks),
      Math_min_list (map (\<lambda>p. pty p * imageHeight) landmarks),
      Math_max_list (map (\<lambda>p. pty p * imageHeight) landmarks))"

definition js_detectedRect :: "jsnum \<times> jsnum \<times> jsnum \<times> jsnum \<Rightarrow> jsnum \<Rightarrow> jsnum option \<Rightarrow> jsnum option \<Rightarrow> jsnum \<times> jsnum \<times> jsnum \<times> jsnum" where
  "js_detectedRect box intensity widthFactor verticalOffset =
     (case box of (boxLeft, boxRight, boxTop, boxBottom) \<Rightarrow>
        (let faceWidth = boxRight - boxLeft;
             faceHeight = boxBottom - boxTop;
             width = (case widthFactor of
                        None \<Rightarrow> faceWidth * (double 0.45 + double 0.3 * intensity)
                      | Some f \<Rightarrow> faceWidth * (double 0.45 + double 0.3 * intensity) * f);
             height = faceHeight * (double 0.25 + double 0.15 * intensity);
             x = (boxLeft + boxRight) / Fin 2 - width / Fin 2;
             y = (case verticalOffset of
                    None \<Rightarrow> boxBottom - double 0.4 * height
                  | Some v \<Rightarrow> boxBottom - double 0.4 * height + v * faceHeight)
         in (x, y, width, height)))"

definition js_fallbackRect :: "jsnum \<Rightarrow> jsnum \<Rightarrow> jsnum \<Rightarrow> jsnum option \<Rightarrow> jsnum option \<Rightarrow> jsnum \<times> jsnum \<times> jsnum \<times> jsnum" where
  "js_fallbackRect canvasWidth canvasHeight intensity widthFactor verticalOffset =
     (let width = (case widthFactor of
                     None \<Rightarrow> canvasWidth * (double 0.3 + double 0.2 * intensity)
                   | Some f \<Rightarrow> canvasWidth * (double 0.3 + double 0.2 * intensity) * f);
          height = canvasHeight * (double 0.15 + double 0.1 * intensity);
          x = canvasWidth / Fin 2 - width / Fin 2;
          y = (case verticalOffset of
                 None \<Rightarrow> double 0.65 * canvasHeight
               | Some v \<Rightarrow> double 0.65 * canvasHeight + v * canvasHeight)
      in (x, y, width, height))"

text \<open>
  What both placement paths do with their rectangle: sample the colour under it and draw
  the chin there in that colour (lines 128 to 131 and 181 to 184 of the procedural script,
  lines 140 to 142 and 198 to 231 of the asset script).
\<close>

definition sampleAndDraw_part0 :: "(paintop \<Rightarrow> canvas \<Rightarrow> canvas) \<Rightarrow> canvas \<Rightarrow> jsnum \<times> jsnum \<times> jsnum \<times> jsnum \<Rightarrow> canvas completion" where
  "sampleAndDraw_part0 paint cv rect =
     (case rect of (x, y, w, h) \<Rightarrow>
        (case computeAverageColor_part0 cv x y w h of
           Inl e \<Rightarrow> Thrown e cv
         | Inr c \<Rightarrow> drawBallsChin paint cv x y w h (RGBA (r c) (g c) (b c) (Fin 1))
                      (RGBA (Fin 0) (Fin 0) (Fin 0) (Fin 1))))"

definition sampleAndDraw_script :: "(paintop \<Rightarrow> canvas \<Rightarrow> canvas) \<Rightarrow> inputs \<Rightarrow> canvas \<Rightarrow> jsnum \<times> jsnum \<times> jsnum \<times> jsnum \<Rightarrow> canvas completion" where
  "sampleAndDraw_script paint inp cv rect =
     (case rect of (x, y, w, h) \<Rightarrow>
        (case computeAverageColor_script cv x y w h of
           Inl e \<Rightarrow> Thrown e cv
         | Inr c \<Rightarrow> drawTintedChin paint inp cv x y w h (RGBA (r c) (g c) (b c) (Fin 1))))"

definition sampleAndRotate_script :: "(paintop \<Rightarrow> canvas \<Rightarrow> canvas) \<Rightarrow> (jsnum \<Rightarrow> jsnum \<Rightarrow> jsnum) \<Rightarrow> inputs \<Rightarrow> image \<Rightarrow> point list \<Rightarrow> canvas \<Rightarrow> jsnum \<times> jsnum \<times> jsnum \<times> jsnum \<Rightarrow> canvas completion" where
  "sampleAndRotate_script paint atan2 inp img landmarks cv rect =
     (case rect of (x, y, w, h) \<Rightarrow>
        (case computeAverageColor_script cv x y w h of
           Inl e \<Rightarrow> Thrown e cv
         | Inr c \<Rightarrow> drawRotatedChin paint atan2 inp img landmarks cv x y w h c))"
section \<open>Fixtures\<close>

text \<open>
  Concrete values for closed instances: a canvas and an image of one colour, the mid grey
  of the end-to-end scenario, an image that failed to load, a renderer that paints
  nothing, an \<open>atan2\<close> that is constantly 0, slider values and a page.
\<close>

definition uniformCanvas :: "24 word \<Rightarrow> 24 word \<Rightarrow> rgba \<Rightarrow> canvas" where
  "uniformCanvas w h c = \<lparr>widthAttr = w, heightAttr = h, cpixel = (\<lambda>x y. c)\<rparr>"

definition gray128 :: rgba where
  "gray128 = \<lparr>red = 128, green = 128, blue = 128, alpha = 255\<rparr>"

definition uniformImage :: "nat \<Rightarrow> nat \<Rightarrow> rgba \<Rightarrow> image" where
  "uniformImage w h c = \<lparr>istate = Available, iwidth = w, iheight = h, ipixel = (\<lambda>x y. c)\<rparr>"

definition brokenImage :: image where
  "brokenImage = \<lparr>istate = Broken, iwidth = 0, iheight = 0, ipixel = (\<lambda>x y. transparentBlack)\<rparr>"

definition noPaint :: "paintop \<Rightarrow> canvas \<Rightarrow> canvas" where
  "noPaint op cv = cv"

definition flatAtan2 :: "jsnum \<Rightarrow> jsnum \<Rightarrow> jsnum" where
  "flatAtan2 dy dx = Fin 0"

definition midInputs :: inputs where
  "midInputs = \<lparr>intensityValue = Fin 0.5, widthFactorValue = Fin 1, offsetValue = Fin 0,
     maskImg = uniformImage 8 8 gray128, outlineImg = uniformImage 8 8 gray128,
     faceMeshLoads = True, faceMesh = Results None\<rparr>"

definition grayRedrawn :: canvas where
  "grayRedrawn = uniformCanvas 400 300 gray128
     \<lparr>cpixel := (\<lambda>x y. if x < 400 \<and> y < 300 then gray128 else transparentBlack)\<rparr>"

definition grayChin :: "(paintop \<Rightarrow> canvas \<Rightarrow> canvas) \<Rightarrow> canvas \<Rightarrow> canvas" where
  "grayChin paint cv =
     paint (StrokeArc (Fin 200) (Fin 216) (Fin 40) Math_PI (Fin 0) (RGBA (Fin 0) (Fin 0) (Fin 0) (Fin 1)))
       (paint (StrokeLine (Fin 200) (Fin 216) (Fin 200) (Fin 243) (RGBA (Fin 0) (Fin 0) (Fin 0) (Fin 1)))
         (paint (FillStrokeEllipse (Fin 240) (Fin 231) (Fin 40) (Fin 24)
                   (RGBA (Fin 138) (Fin 138) (Fin 138) (Fin 1)) (RGBA (Fin 0) (Fin 0) (Fin 0) (Fin 1)))
           (paint (FillStrokeEllipse (Fin 160) (Fin 231) (Fin 40) (Fin 24)
                     (RGBA (Fin 138) (Fin 138) (Fin 138) (Fin 1)) (RGBA (Fin 0) (Fin 0) (Fin 0) (Fin 1)))
              cv)))"

definition grayPage :: page where
  "grayPage = \<lparr>uploadedImage = Some (uniformImage 400 300 gray128),
     cnv = uniformCanvas 400 300 gray128, generateDisabled = False, downloadDisabled = True\<rparr>"

section \<open>Properties of the rounding\<close>

lemma roundHalfEven_int [simp]: "roundHalfEven (of_int n) = n"
  by (simp add: roundHalfEven_def)

lemma roundHalfEven_le: "x \<le> of_int n \<Longrightarrow> roundHalfEven x \<le> n"
proof (cases "x = of_int n")
  case True
  then show ?thesis by simp
next
  case False
  assume "x \<le> of_int n"
  with False have "x < of_int n" by simp
  then have "\<lfloor>x\<rfloor> < n" by (simp add: floor_less_iff)
  then show ?thesis by (simp add: roundHalfEven_def)
qed

lemma roundHalfEven_ge: "of_int n \<le> x \<Longrightarrow> n \<le> roundHalfEven x"
proof -
  assume "of_int n \<le> x"
  then have "n \<le> \<lfloor>x\<rfloor>" by (simp add: le_floor_iff)
  then show ?thesis by (simp add: roundHalfEven_def)
qed

lemma roundHalfEven_mono: "x \<le> y \<Longrightarrow> roundHalfEven x \<le> roundHalfEven y"
proof (cases "\<lfloor>x\<rfloor> = \<lfloor>y\<rfloor>")
  case True
  assume "x \<le> y"
  then show ?thesis using True by (auto simp: roundHalfEven_def)
next
  case False
  assume "x \<le> y"
  then have "\<lfloor>x\<rfloor> \<le> \<lfloor>y\<rfloor>" by (rule floor_mono)
  with False have "\<lfloor>x\<rfloor> + 1 \<le> \<lfloor>y\<rfloor>" by simp
  moreover have "roundHalfEven x \<le> \<lfloor>x\<rfloor> + 1" by (simp add: roundHalfEven_def)
  moreover have "\<lfloor>y\<rfloor> \<le> roundHalfEven y" by (simp add: roundHalfEven_def)
  ultimately show ?thesis by linarith
qed

lemma binade_bounds:
  assumes "x \<noteq> 0"
  shows "2 powi binade x \<le> \<bar>x\<bar>" and "\<bar>x\<bar> < 2 powi (binade x + 1)"
proof -
  have "2 powi binade x \<le> \<bar>x\<bar> \<and> \<bar>x\<bar> < 2 powi (binade x + 1)"
  proof (cases "1 \<le> \<bar>x\<bar>")
    case True
    define n where "n = \<lfloor>\<bar>x\<bar>\<rfloor>"
    have n: "0 < n" using True by (simp add: n_def)
    have b: "binade x = bitlen n - 1" using True by (simp add: binade_def n_def)
    have b1: "1 \<le> bitlen n" using n bitlen_eq_zero_iff [of n] bitlen_nonneg [of n] by linarith
    from bitlen_bounds [OF n] have lo: "2 ^ nat (bitlen n - 1) \<le> n" and hi: "n < 2 ^ nat (bitlen n)"
      by simp_all
    have "2 powi (bitlen n - 1) = (2::real) ^ nat (bitlen n - 1)"
      using b1 by (simp add: power_int_def)
    also have "\<dots> = of_int (2 ^ nat (bitlen n - 1))" by simp
    also have "\<dots> \<le> of_int n" using lo by (simp only: of_int_le_iff)
    also have "\<dots> \<le> \<bar>x\<bar>" by (simp add: n_def)
    finally have 1: "2 powi binade x \<le> \<bar>x\<bar>" by (simp add: b)
    have "n + 1 \<le> 2 ^ nat (bitlen n)" using hi by simp
    then have "(of_int (n + 1) :: real) \<le> of_int (2 ^ nat (bitlen n))" by (simp only: of_int_le_iff)
    moreover have "\<bar>x\<bar> < of_int (n + 1)" unfolding n_def by linarith
    ultimately have "\<bar>x\<bar> < (2::real) ^ nat (bitlen n)" by simp
    also have "\<dots> = 2 powi (bitlen n)" using b1 by (simp add: power_int_def)
    finally have 2: "\<bar>x\<bar> < 2 powi (binade x + 1)" by (simp add: b)
    from 1 2 show ?thesis ..
  next
    case False
    define y where "y = 1 / \<bar>x\<bar>"
    have xp: "0 < \<bar>x\<bar>" using assms by simp
    have y1: "1 < y" using False xp by (simp add: y_def)
    define c where "c = \<lceil>y\<rceil>"
    have c: "of_int c - 1 < y" "y \<le> of_int c" unfolding c_def by linarith+
    have c2: "0 < c - 1" using y1 c(2) by linarith
    define k where "k = bitlen (c - 1)"
    have b: "binade x = - k" using False by (simp add: binade_def y_def c_def k_def)
    have k1: "1 \<le> k" using c2 bitlen_eq_zero_iff [of "c - 1"] bitlen_nonneg [of "c - 1"]
      unfolding k_def by linarith
    from bitlen_bounds [OF c2] have lo: "2 ^ nat (k - 1) \<le> c - 1" and hi: "c - 1 < 2 ^ nat k"
      unfolding k_def by simp_all
    have "(of_int (2 ^ nat (k - 1)) :: real) \<le> of_int (c - 1)" using lo by (simp only: of_int_le_iff)
    then have ylo: "(2::real) ^ nat (k - 1) < y" using c(1) by simp
    have "c \<le> 2 ^ nat k" using hi by simp
    then have "(of_int c :: real) \<le> 2 ^ nat k" by simp
    then have yhi: "y \<le> (2::real) ^ nat k" using c(2) by linarith
    have xy: "\<bar>x\<bar> = 1 / y" using xp by (simp add: y_def)
    have "2 powi (- k) = 1 / (2::real) ^ nat k" using k1 by (simp add: power_int_def field_simps)
    also have "\<dots> \<le> 1 / y" using yhi y1 by (simp add: frac_le)
    finally have 1: "2 powi binade x \<le> \<bar>x\<bar>" by (simp add: b xy)
    have "1 / y < 1 / (2::real) ^ nat (k - 1)" using ylo by (simp add: frac_less2)
    also have "\<dots> = 2 powi (- k + 1)"
    proof (cases "k = 1")
      case True
      then show ?thesis by simp
    next
      case False
      with k1 have "- k + 1 < 0" by simp
      moreover have "nat (k - 1) = nat (- (- k + 1))" by simp
      ultimately show ?thesis by (simp add: power_int_def field_simps)
    qed
    finally have 2: "\<bar>x\<bar> < 2 powi (binade x + 1)" by (simp add: b xy)
    from 1 2 show ?thesis ..
  qed
  then show "2 powi binade x \<le> \<bar>x\<bar>" and "\<bar>x\<bar> < 2 powi (binade x + 1)" by blast+
qed

lemma binade_less: "x \<noteq> 0 \<Longrightarrow> \<bar>x\<bar> < 2 powi k \<Longrightarrow> binade x < k"
proof (rule ccontr)
  assume x: "x \<noteq> 0" and lt: "\<bar>x\<bar> < 2 powi k" and "\<not> binade x < k"
  then have "k \<le> binade x" by simp
  then have "(2::real) powi k \<le> 2 powi binade x" by (rule power_int_increasing) simp
  also have "\<dots> \<le> \<bar>x\<bar>" using x by (rule binade_bounds)
  finally show False using lt by simp
qed

lemma binade_ge: "x \<noteq> 0 \<Longrightarrow> 2 powi k \<le> \<bar>x\<bar> \<Longrightarrow> k \<le> binade x"
proof (rule ccontr)
  assume x: "x \<noteq> 0" and le: "2 powi k \<le> \<bar>x\<bar>" and "\<not> k \<le> binade x"
  then have "binade x + 1 \<le> k" by simp
  then have "(2::real) powi (binade x + 1) \<le> 2 powi k" by (rule power_int_increasing) simp
  moreover have "\<bar>x\<bar> < 2 powi (binade x + 1)" using x by (rule binade_bounds)
  ultimately show False using le by simp
qed

lemma binade_mono: "x \<noteq> 0 \<Longrightarrow> \<bar>x\<bar> \<le> \<bar>y\<bar> \<Longrightarrow> binade x \<le> binade y"
proof -
  assume x: "x \<noteq> 0" and le: "\<bar>x\<bar> \<le> \<bar>y\<bar>"
  then have y: "y \<noteq> 0" by auto
  have "2 powi binade x \<le> \<bar>y\<bar>" using binade_bounds(1) [OF x] le by simp
  with y show ?thesis by (rule binade_ge)
qed

lemma roundHalfEven_zero [simp]: "roundHalfEven 0 = 0"
  using roundHalfEven_int [of 0] by simp

lemma nearest_zero [simp]: "nearest 0 = 0"
  by (simp add: nearest_def)

lemma nearest_int:
  assumes "\<bar>m\<bar> < 2 ^ 53"
  shows "nearest (of_int m) = of_int m"
proof (cases "m = 0")
  case True
  then show ?thesis by simp
next
  case False
  define e where "e = ulpExponent (of_int m)"
  have "\<bar>of_int m :: real\<bar> < of_int (2 ^ 53)" using assms by (simp only: of_int_abs [symmetric] of_int_less_iff)
  then have "\<bar>of_int m :: real\<bar> < 2 powi 53" by simp
  then have "binade (of_int m) < 53" using False by (intro binade_less) simp_all
  then have e0: "e \<le> 0" by (simp add: e_def ulpExponent_def)
  have p: "(2::real) powi e = 1 / 2 ^ nat (- e)" using e0 by (simp add: power_int_def field_simps)
  have "of_int m / (2::real) powi e = of_int (m * 2 ^ nat (- e))" by (simp add: p)
  then have "roundHalfEven (of_int m / 2 powi e) = m * 2 ^ nat (- e)" by (simp only: roundHalfEven_int)
  then show ?thesis by (simp add: nearest_def e_def [symmetric] p)
qed

lemma nearest_nonneg: "0 \<le> x \<Longrightarrow> 0 \<le> nearest x"
proof -
  assume "0 \<le> x"
  then have "of_int 0 \<le> x / 2 powi ulpExponent x" by simp
  then have "0 \<le> roundHalfEven (x / 2 powi ulpExponent x)" by (rule roundHalfEven_ge)
  then show ?thesis by (simp add: nearest_def)
qed

lemma nearest_nonpos: "x \<le> 0 \<Longrightarrow> nearest x \<le> 0"
proof -
  assume "x \<le> 0"
  then have "x / 2 powi ulpExponent x \<le> of_int 0" by (simp add: divide_nonpos_pos)
  then have "roundHalfEven (x / 2 powi ulpExponent x) \<le> 0" by (rule roundHalfEven_le)
  then show ?thesis by (simp add: nearest_def mult_nonpos_nonneg)
qed

lemma nearest_mono_pos:
  assumes "0 < x" "x \<le> y"
  shows "nearest x \<le> nearest y"
proof -
  define ex where "ex = ulpExponent x"
  define ey where "ey = ulpExponent y"
  have x0: "x \<noteq> 0" and y0: "y \<noteq> 0" and yp: "0 < y" using assms by simp_all
  have bm: "binade x \<le> binade y" using x0 assms by (intro binade_mono) simp_all
  then have exy: "ex \<le> ey" by (simp add: ex_def ey_def ulpExponent_def)
  have px: "0 < (2::real) powi ex" and py: "0 < (2::real) powi ey" by (simp_all add: zero_less_power_int)
  show ?thesis
  proof (cases "ex = ey")
    case True
    have "x / 2 powi ex \<le> y / 2 powi ex" using assms(2) px by (simp add: divide_right_mono)
    then have "roundHalfEven (x / 2 powi ex) \<le> roundHalfEven (y / 2 powi ex)"
      by (rule roundHalfEven_mono)
    then have "(of_int (roundHalfEven (x / 2 powi ex)) :: real) \<le> of_int (roundHalfEven (y / 2 powi ex))"
      by (simp only: of_int_le_iff)
    then have "of_int (roundHalfEven (x / 2 powi ex)) * 2 powi ex
         \<le> of_int (roundHalfEven (y / 2 powi ex)) * (2::real) powi ex"
      using px by (simp add: mult_right_mono)
    then show ?thesis unfolding nearest_def ex_def [symmetric] ey_def [symmetric] True [symmetric] .
  next
    case False
    with exy have lt: "ex < ey" by simp
    define k where "k = binade y"
    from lt have kb: "- 1022 < k" and bx: "binade x < k" and ek: "ey = k - 52"
      by (auto simp: ex_def ey_def ulpExponent_def k_def max_def split: if_splits)
    have exk: "ex \<le> k - 53" using lt ek by simp
    have "x < 2 powi (binade x + 1)" using binade_bounds(2) [OF x0] assms(1) by simp
    also have "\<dots> \<le> 2 powi k" using bx by (intro power_int_increasing) simp_all
    finally have xk: "x \<le> 2 powi k" by simp
    have "x / 2 powi ex \<le> 2 powi k / 2 powi ex" using xk px by (simp add: divide_right_mono)
    also have "\<dots> = 2 powi (k - ex)" by (simp add: power_int_diff)
    also have "\<dots> = of_int (2 ^ nat (k - ex))" using exk by (simp add: power_int_def)
    finally have "roundHalfEven (x / 2 powi ex) \<le> 2 ^ nat (k - ex)" by (rule roundHalfEven_le)
    then have "(of_int (roundHalfEven (x / 2 powi ex)) :: real) \<le> of_int (2 ^ nat (k - ex))"
      by (simp only: of_int_le_iff)
    then have "of_int (roundHalfEven (x / 2 powi ex)) * 2 powi ex \<le> of_int (2 ^ nat (k - ex)) * (2::real) powi ex"
      using px by (simp add: mult_right_mono)
    also have "of_int (2 ^ nat (k - ex)) * (2::real) powi ex = 2 powi (k - ex) * 2 powi ex"
      using exk by (simp add: power_int_def)
    also have "\<dots> = 2 powi k" by (simp add: power_int_add [symmetric])
    finally have A: "nearest x \<le> 2 powi k" unfolding nearest_def ex_def [symmetric] .
    have "2 powi k \<le> y" using binade_bounds(1) [OF y0] yp by (simp add: k_def)
    then have "2 powi k / 2 powi ey \<le> y / 2 powi ey" using py by (simp add: divide_right_mono)
    moreover have "2 powi k / (2::real) powi ey = 2 powi (k - ey)" by (simp add: power_int_diff)
    moreover have "(2::real) powi (k - ey) = of_int (2 ^ 52)" by (simp add: ek)
    ultimately have "of_int (2 ^ 52) \<le> y / 2 powi ey" by simp
    then have r52: "2 ^ 52 \<le> roundHalfEven (y / 2 powi ey)" by (rule roundHalfEven_ge)
    define ry where "ry = roundHalfEven (y / 2 powi ey)"
    have "(2::real) ^ 52 \<le> of_int ry" using r52 unfolding ry_def by simp
    then have "(2::real) ^ 52 * 2 powi ey \<le> of_int ry * 2 powi ey"
      using py by (intro mult_right_mono) simp_all
    moreover have "(2::real) ^ 52 * 2 powi ey = 2 powi k"
    proof -
      have "(2::real) powi (52 + ey) = 2 powi 52 * 2 powi ey" by (rule power_int_add) simp
      then show ?thesis by (simp add: ek)
    qed
    ultimately have "(2::real) powi k \<le> of_int ry * 2 powi ey" by linarith
    then have B: "2 powi k \<le> nearest y" unfolding nearest_def ey_def [symmetric] ry_def .
    from A B show ?thesis by simp
  qed
qed

lemma nearest_mono: "0 \<le> x \<Longrightarrow> x \<le> y \<Longrightarrow> nearest x \<le> nearest y"
proof (cases "x = 0")
  case True
  assume "0 \<le> x" "x \<le> y"
  then show ?thesis using True nearest_nonneg [of y] by simp
next
  case False
  assume "0 \<le> x" "x \<le> y"
  then show ?thesis using False by (intro nearest_mono_pos) simp_all
qed

lemma double_not_NaN [simp]: "double x \<noteq> NaN" "NaN \<noteq> double x"
  by (simp_all add: double_def)

lemma double_zero [simp]: "double 0 = Fin 0"
  by (simp add: double_def)

lemma double_int:
  assumes "\<bar>m\<bar> < 2 ^ 53"
  shows "double (of_int m) = Fin (of_int m)"
proof (cases "m = 0")
  case True
  then show ?thesis by simp
next
  case False
  have n: "nearest (of_int m) = of_int m" using assms by (rule nearest_int)
  have "\<bar>of_int m :: real\<bar> < of_int (2 ^ 53)"
    using assms by (simp only: of_int_abs [symmetric] of_int_less_iff)
  also have "\<dots> \<le> 2 ^ 1024" by simp
  finally have "\<not> 2 powi 1024 \<le> \<bar>of_int m :: real\<bar>" by simp
  then show ?thesis using False by (simp add: double_def n)
qed

lemma double_nat: "n < 2 ^ 53 \<Longrightarrow> double (real n) = Fin (real n)"
  using double_int [of "int n"] by simp

lemma Fin_le [simp]: "(Fin u \<le> Fin v) = (u \<le> v)"
  by (auto simp: less_eq_jsnum_def)

lemma Fin_le_PosInf [simp]: "Fin u \<le> PosInf" "NegInf \<le> Fin u" "PosInf \<le> PosInf" "NegInf \<le> NegInf"
  "\<not> PosInf \<le> Fin u" "\<not> Fin u \<le> NegInf"
  by (simp_all add: less_eq_jsnum_def)

lemma NaN_le [simp]: "\<not> NaN \<le> v" "\<not> v \<le> NaN"
  by (cases v; simp add: less_eq_jsnum_def)+

lemma double_mono:
  assumes "0 \<le> x" "x \<le> y"
  shows "double x \<le> double y"
proof -
  have ny: "0 \<le> nearest y" using assms by (intro nearest_nonneg) simp
  have nx: "0 \<le> nearest x" using assms(1) by (rule nearest_nonneg)
  have m: "nearest x \<le> nearest y" using assms by (rule nearest_mono)
  show ?thesis
  proof (cases "x = 0")
    case True
    then show ?thesis using ny assms by (simp add: double_def)
  next
    case False
    then have "0 < x" "0 < y" "y \<noteq> 0" using assms by simp_all
    then show ?thesis using m nx ny by (simp add: double_def)
  qed
qed

lemma double_nonpos: "x \<le> 0 \<Longrightarrow> double x \<le> Fin 0"
  using nearest_nonpos [of x] by (simp add: double_def)

lemma double_between:
  assumes "double lo = Fin lo" "double hi = Fin hi" "0 \<le> lo" "lo \<le> x" "x \<le> hi"
  shows "\<exists>v. double x = Fin v \<and> lo \<le> v \<and> v \<le> hi"
proof -
  have 1: "Fin lo \<le> double x" using double_mono [OF assms(3,4)] assms(1) by simp
  have 2: "double x \<le> Fin hi" using double_mono [of x hi] assms(2,3,4,5) by simp
  from 1 2 show ?thesis by (cases "double x") simp_all
qed

lemma double_between_int:
  assumes "0 \<le> j" "k < 2 ^ 53" "of_int j \<le> x" "x \<le> of_int k"
  shows "\<exists>v. double x = Fin v \<and> of_int j \<le> v \<and> v \<le> of_int k"
proof -
  have "j \<le> k" using assms(3,4) by linarith
  then have "\<bar>j\<bar> < 2 ^ 53" "\<bar>k\<bar> < 2 ^ 53" using assms(1,2) by simp_all
  then have "double (of_int j) = Fin (of_int j)" "double (of_int k) = Fin (of_int k)"
    by (simp_all add: double_int)
  then show ?thesis using assms by (intro double_between) simp_all
qed

text \<open>The evaluation of \<open>double\<close> at a number that is written out.\<close>

lemma bitlen_numeral: "bitlen (numeral n) = bitlen (numeral n div 2) + 1"
  by (subst compute_bitlen) simp

lemma bitlen_one: "bitlen 1 = 1"
  by (subst compute_bitlen) simp

lemmas double_eval = double_def nearest_def ulpExponent_def binade_def roundHalfEven_def
  bitlen_numeral bitlen_one

lemma literals:
  "double 0.1 = Fin (3602879701896397 / 36028797018963968)"
  "double 0.15 = Fin (5404319552844595 / 36028797018963968)"
  "double 0.2 = Fin (3602879701896397 / 18014398509481984)"
  "double 0.25 = Fin (1 / 4)"
  "double 0.3 = Fin (5404319552844595 / 18014398509481984)"
  "double 0.35 = Fin (3152519739159347 / 9007199254740992)"
  "double 0.4 = Fin (3602879701896397 / 9007199254740992)"
  "double 0.45 = Fin (8106479329266893 / 18014398509481984)"
  "double 0.6 = Fin (5404319552844595 / 9007199254740992)"
  "double 0.65 = Fin (5854679515581645 / 9007199254740992)"
  "double 0.75 = Fin (3 / 4)"
  "double 0.8 = Fin (3602879701896397 / 4503599627370496)"
  by (simp_all add: double_eval)

lemma cwidth_bound: "cwidth cv < 2 ^ 24" "cheight cv < 2 ^ 24"
  using unsigned_less [of "widthAttr cv", where 'a = nat] unsigned_less [of "heightAttr cv", where 'a = nat]
  by (simp_all add: cwidth_def cheight_def)

lemma cwidth_cpixel_update [simp]:
  "cwidth (cv\<lparr>cpixel := f\<rparr>) = cwidth cv" "cheight (cv\<lparr>cpixel := f\<rparr>) = cheight cv"
  by (simp_all add: cwidth_def cheight_def)

lemma cwidth_uniformCanvas [simp]:
  "cwidth (uniformCanvas cw ch c) = unat cw" "cheight (uniformCanvas cw ch c) = unat ch"
  "cpixel (uniformCanvas cw ch c) = (\<lambda>px py. c)"
  by (simp_all add: cwidth_def cheight_def uniformCanvas_def)

section \<open>Evaluation\<close>

lemmas eval_defs = sampleRect_part0_def sampleRect_script_def computeAverageColor_part0_def
  computeAverageColor_script_def gray128_def Math_max_def Math_min_def
  less_eq_jsnum_def minus_jsnum_def getImageData_def imageBytes_def pixelAt_def pixelBytes_def
  byteAt_def upt_rec Let_def default_part0_def default_script_def sumLoop_part0.simps
  sumLoop_script.simps isIntIn_def double_eval

section \<open>The layout of the pixel data\<close>

lemma concat_map_upt_length:
  "(\<forall>i<n. length (f i) = m) \<Longrightarrow> length (concat (map f [0..<n])) = n * m"
  by (induction n) auto

lemma concat_map_upt_nth:
  "(\<forall>i<n. length (f i) = m) \<Longrightarrow> k < n * m \<Longrightarrow>
     concat (map f [0..<n]) ! k = f (k div m) ! (k mod m)"
proof (induction n)
  case 0
  then show ?case by simp
next
  case (Suc n)
  have len: "length (concat (map f [0..<n])) = n * m"
    using Suc.prems(1) by (simp add: concat_map_upt_length)
  show ?case
  proof (cases "k < n * m")
    case True
    then show ?thesis using Suc len by (simp add: nth_append)
  next
    case False
    then have ge: "n * m \<le> k" by simp
    from Suc.prems(2) have "0 < m" by (cases m) auto
    have "k div m = n"
      using ge Suc.prems(2) \<open>0 < m\<close>
      by (metis div_nat_eqI mult.commute)
    moreover have "k mod m = k - n * m"
      using \<open>k div m = n\<close> by (metis minus_mult_div_eq_mod mult.commute)
    ultimately show ?thesis using False len by (simp add: nth_append)
  qed
qed

lemma length_imageBytes: "length (imageBytes cv x y w h) = 4 * w * h"
proof -
  have row: "\<And>row. length (concat (map (\<lambda>col. pixelBytes (pixelAt cv (x + int col) (y + int row))) [0..<w])) = w * 4"
    by (rule concat_map_upt_length) (simp add: pixelBytes_def)
  have "length (imageBytes cv x y w h) = h * (w * 4)"
    unfolding imageBytes_def by (rule concat_map_upt_length) (simp add: row)
  then show ?thesis by simp
qed

lemma imageBytes_nth:
  assumes "k < 4 * w * h"
  shows "\<exists>col row. col < w \<and> row < h \<and>
           imageBytes cv x y w h ! k = pixelBytes (pixelAt cv (x + int col) (y + int row)) ! (k mod 4)"
proof -
  let ?px = "\<lambda>row col. pixelBytes (pixelAt cv (x + int col) (y + int row))"
  let ?row = "\<lambda>row. concat (map (?px row) [0..<w])"
  have rowlen: "\<And>row. length (?row row) = w * 4"
    by (rule concat_map_upt_length) (simp add: pixelBytes_def)
  from assms have k: "k < h * (w * 4)" by (simp add: mult.commute mult.left_commute)
  then have "0 < w" by (cases w) auto
  have 1: "imageBytes cv x y w h ! k = ?row (k div (w * 4)) ! (k mod (w * 4))"
    unfolding imageBytes_def using k by (intro concat_map_upt_nth) (simp_all add: rowlen)
  have km: "k mod (w * 4) < w * 4" using \<open>0 < w\<close> by simp
  have 2: "?row (k div (w * 4)) ! (k mod (w * 4))
             = ?px (k div (w * 4)) ((k mod (w * 4)) div 4) ! ((k mod (w * 4)) mod 4)"
    using km by (intro concat_map_upt_nth) (simp_all add: pixelBytes_def)
  have 3: "(k mod (w * 4)) mod 4 = k mod 4"
    by (simp add: mod_mod_cancel)
  have 4: "(k mod (w * 4)) div 4 < w" using km by (simp add: less_mult_imp_div_less)
  have 5: "k div (w * 4) < h" using k by (simp add: less_mult_imp_div_less)
  show ?thesis using 1 2 3 4 5 by metis
qed

section \<open>The sampling loops\<close>

lemma byteAt_in: "i < length data \<Longrightarrow> byteAt data i = Fin (real (unat (data ! i)))"
  by (simp add: byteAt_def)

lemma unat_byte_le: "unat (w :: 8 word) \<le> 255"
  using unsigned_less [of w, where 'a = nat] by simp

lemma quad_step: "4 dvd n \<Longrightarrow> 4 dvd i \<Longrightarrow> i < n \<Longrightarrow> i + 3 < (n::nat)"
  by (elim dvdE) auto

lemma sumLoop_part0_step:
  "i < length data \<Longrightarrow> sumLoop_part0 data i (rs, gs, bs, count) =
     sumLoop_part0 data (i + 40)
       (rs + byteAt data i, gs + byteAt data (i + 1), bs + byteAt data (i + 2), count + 1)"
  by (simp add: sumLoop_part0.simps)

lemma sumLoop_part0_stop:
  assumes "\<not> i < length data"
  shows "sumLoop_part0 data i acc = acc"
proof -
  obtain rs gs bs count where "acc = (rs, gs, bs, count)" by (cases acc) auto
  then show ?thesis using assms by (simp add: sumLoop_part0.simps)
qed

lemma plus_nat_exact: "u + v < 2 ^ 53 \<Longrightarrow> Fin (real u) + Fin (real v) = Fin (real (u + v))"
  using double_nat [of "u + v"] by simp

text \<open>
  The pixel data of a region of a canvas has fewer than \<open>2^50\<close> bytes, so the sums of the
  loop stay below \<open>2^53\<close>, where the addition of doubles is exact.
\<close>

lemma sum_bound:
  assumes "n \<le> 255 * count" "40 * count \<le> i" "i < len" "len \<le> 2 ^ 50" "v \<le> 255"
  shows "n + v < (2::nat) ^ 53"
proof -
  have "40 * count < 2 ^ 50" using assms(2,3,4) by linarith
  then have "40 * count < 1125899906842624" by simp
  then have "n + v < 9007199254740992" using assms(1,5) by linarith
  then show ?thesis by simp
qed

lemma sumLoop_part0_sums:
  "4 dvd length data \<Longrightarrow> 4 dvd i \<Longrightarrow> length data \<le> 2 ^ 50 \<Longrightarrow>
   acc = (Fin (real nr), Fin (real ng), Fin (real nb), count) \<Longrightarrow>
   nr \<le> 255 * count \<Longrightarrow> ng \<le> 255 * count \<Longrightarrow> nb \<le> 255 * count \<Longrightarrow> 40 * count \<le> i \<Longrightarrow>
   \<exists>nr' ng' nb' count'.
      sumLoop_part0 data i acc = (Fin (real nr'), Fin (real ng'), Fin (real nb'), count') \<and>
      nr' \<le> 255 * count' \<and> ng' \<le> 255 * count' \<and> nb' \<le> 255 * count' \<and>
      count \<le> count' \<and> (i < length data \<longrightarrow> 0 < count')"
proof (induction data i acc arbitrary: nr ng nb count rule: sumLoop_part0.induct)
  case (1 data i rs gs bs cnt)
  from "1.prems"(4) have acc: "rs = Fin (real nr)" "gs = Fin (real ng)" "bs = Fin (real nb)" "cnt = count"
    by simp_all
  show ?case
  proof (cases "i < length data")
    case False
    then show ?thesis using "1.prems" acc by (simp add: sumLoop_part0_stop)
  next
    case True
    have in3: "i + 3 < length data" using quad_step [OF "1.prems"(1,2) True] .
    let ?r = "nr + unat (data ! i)" and ?g = "ng + unat (data ! (i + 1))"
      and ?b = "nb + unat (data ! (i + 2))"
    note sb = sum_bound [OF _ "1.prems"(8) True "1.prems"(3)]
    have e1: "Fin (real nr) + Fin (real (unat (data ! i))) = Fin (real ?r)"
      by (intro plus_nat_exact sb "1.prems"(5) unat_byte_le)
    have e2: "Fin (real ng) + Fin (real (unat (data ! (i + 1)))) = Fin (real ?g)"
      by (intro plus_nat_exact sb "1.prems"(6) unat_byte_le)
    have e3: "Fin (real nb) + Fin (real (unat (data ! (i + 2)))) = Fin (real ?b)"
      by (intro plus_nat_exact sb "1.prems"(7) unat_byte_le)
    have a': "(rs + byteAt data i, gs + byteAt data (i + 1), bs + byteAt data (i + 2), cnt + 1)
               = (Fin (real ?r), Fin (real ?g), Fin (real ?b), count + 1)"
      using True in3 acc e1 e2 e3 by (simp add: byteAt_in)
    have step: "sumLoop_part0 data i (rs, gs, bs, cnt)
             = sumLoop_part0 data (i + 40) (Fin (real ?r), Fin (real ?g), Fin (real ?b), count + 1)"
      unfolding sumLoop_part0_step [OF True] a' ..
    have b1: "?r \<le> 255 * (count + 1)" using "1.prems"(5) unat_byte_le [of "data ! i"] by simp
    have b2: "?g \<le> 255 * (count + 1)" using "1.prems"(6) unat_byte_le [of "data ! (i + 1)"] by simp
    have b3: "?b \<le> 255 * (count + 1)" using "1.prems"(7) unat_byte_le [of "data ! (i + 2)"] by simp
    have d: "4 dvd i + 40" using "1.prems"(2) by simp
    have c40: "40 * (count + 1) \<le> i + 40" using "1.prems"(8) by simp
    from "1.IH" [OF True "1.prems"(1) d "1.prems"(3) a' b1 b2 b3 c40]
    obtain nr' ng' nb' count' where
      "sumLoop_part0 data (i + 40) (Fin (real ?r), Fin (real ?g), Fin (real ?b), count + 1)
         = (Fin (real nr'), Fin (real ng'), Fin (real nb'), count')"
      "nr' \<le> 255 * count'" "ng' \<le> 255 * count'" "nb' \<le> 255 * count'" "count + 1 \<le> count'"
      unfolding a' by blast
    then show ?thesis using step
      by (intro exI [of _ nr'] exI [of _ ng'] exI [of _ nb'] exI [of _ count']) simp
  qed
qed

lemma sumLoop_script_step:
  "i < length data \<Longrightarrow> sumLoop_script data i (rSum, gSum, bSum, count) =
     (if Fin 40 < (byteAt data i + byteAt data (i + 1) + byteAt data (i + 2)) / Fin 3 \<and>
         (byteAt data i + byteAt data (i + 1) + byteAt data (i + 2)) / Fin 3 < Fin 230
      then sumLoop_script data (i + 40)
             (rSum + byteAt data i, gSum + byteAt data (i + 1), bSum + byteAt data (i + 2), count + 1)
      else sumLoop_script data (i + 40) (rSum, gSum, bSum, count))"
  by (simp add: sumLoop_script.simps Let_def)

lemma sumLoop_script_stop:
  assumes "\<not> i < length data"
  shows "sumLoop_script data i acc = acc"
proof -
  obtain rs gs bs count where "acc = (rs, gs, bs, count)" by (cases acc) auto
  then show ?thesis using assms by (simp add: sumLoop_script.simps)
qed

lemma sumLoop_script_sums:
  "4 dvd length data \<Longrightarrow> 4 dvd i \<Longrightarrow> length data \<le> 2 ^ 50 \<Longrightarrow>
   acc = (Fin (real nr), Fin (real ng), Fin (real nb), count) \<Longrightarrow>
   nr \<le> 255 * count \<Longrightarrow> ng \<le> 255 * count \<Longrightarrow> nb \<le> 255 * count \<Longrightarrow> 40 * count \<le> i \<Longrightarrow>
   \<exists>nr' ng' nb' count'.
      sumLoop_script data i acc = (Fin (real nr'), Fin (real ng'), Fin (real nb'), count') \<and>
      nr' \<le> 255 * count' \<and> ng' \<le> 255 * count' \<and> nb' \<le> 255 * count'"
proof (induction data i acc arbitrary: nr ng nb count rule: sumLoop_script.induct)
  case (1 data i rs gs bs cnt)
  from "1.prems"(4) have acc: "rs = Fin (real nr)" "gs = Fin (real ng)" "bs = Fin (real nb)" "cnt = count"
    by simp_all
  show ?case
  proof (cases "i < length data")
    case False
    then show ?thesis using "1.prems" acc by (simp add: sumLoop_script_stop)
  next
    case True
    have in3: "i + 3 < length data" using quad_step [OF "1.prems"(1,2) True] .
    have d: "4 dvd i + 40" using "1.prems"(2) by simp
    let ?br = "(byteAt data i + byteAt data (i + 1) + byteAt data (i + 2)) / Fin 3"
    show ?thesis
    proof (cases "Fin 40 < ?br \<and> ?br < Fin 230")
      case keep: True
      let ?r = "nr + unat (data ! i)" and ?g = "ng + unat (data ! (i + 1))"
        and ?b = "nb + unat (data ! (i + 2))"
      note sb = sum_bound [OF _ "1.prems"(8) True "1.prems"(3)]
      have e1: "Fin (real nr) + Fin (real (unat (data ! i))) = Fin (real ?r)"
        by (intro plus_nat_exact sb "1.prems"(5) unat_byte_le)
      have e2: "Fin (real ng) + Fin (real (unat (data ! (i + 1)))) = Fin (real ?g)"
        by (intro plus_nat_exact sb "1.prems"(6) unat_byte_le)
      have e3: "Fin (real nb) + Fin (real (unat (data ! (i + 2)))) = Fin (real ?b)"
        by (intro plus_nat_exact sb "1.prems"(7) unat_byte_le)
      have b1: "?r \<le> 255 * (count + 1)" using "1.prems"(5) unat_byte_le [of "data ! i"] by simp
      have b2: "?g \<le> 255 * (count + 1)" using "1.prems"(6) unat_byte_le [of "data ! (i + 1)"] by simp
      have b3: "?b \<le> 255 * (count + 1)" using "1.prems"(7) unat_byte_le [of "data ! (i + 2)"] by simp
      have c40: "40 * (count + 1) \<le> i + 40" using "1.prems"(8) by simp
      have a': "(rs + byteAt data i, gs + byteAt data (i + 1), bs + byteAt data (i + 2), cnt + 1)
                 = (Fin (real ?r), Fin (real ?g), Fin (real ?b), count + 1)"
        using True in3 acc e1 e2 e3 by (simp add: byteAt_in)
      have eq: "sumLoop_script data i (rs, gs, bs, cnt) = sumLoop_script data (i + 40)
             (rs + byteAt data i, gs + byteAt data (i + 1), bs + byteAt data (i + 2), cnt + 1)"
        by (subst sumLoop_script_step [OF True]) (simp only: keep if_True simp_thms)
      from "1.IH"(1) [OF True refl refl refl refl _ "1.prems"(1) d "1.prems"(3) a' b1 b2 b3 c40] keep
      show ?thesis
        unfolding eq by blast
    next
      case drop: False
      have eq: "sumLoop_script data i (rs, gs, bs, cnt) = sumLoop_script data (i + 40) (rs, gs, bs, cnt)"
        by (subst sumLoop_script_step [OF True]) (simp only: drop if_False)
      have c40: "40 * count \<le> i + 40" using "1.prems"(8) by simp
      from "1.IH"(2) [OF True refl refl refl refl _ "1.prems"(1) d "1.prems"(3,4,5,6,7) c40] drop
      show ?thesis
        unfolding eq by blast
    qed
  qed
qed

lemma Math_min_255: "Math_min (Fin 255) (Fin (of_int j)) = Fin (of_int (min 255 j))"
  by (simp add: Math_min_def min_def)

lemma channel_in_range:
  assumes "n \<le> 255 * count" "0 < count" "0 \<le> k" "k \<le> 1000"
  shows "isIntIn 0 255 (Math_min (Fin 255) (Math_round (Fin (real n) / Fin (real count) + Fin (of_int k))))"
proof -
  let ?a = "real n / real count"
  have "real n \<le> 255 * real count" using assms(1) by (metis of_nat_le_iff of_nat_mult of_nat_numeral)
  then have a: "of_int 0 \<le> ?a" "?a \<le> of_int 255" using assms(2) by (simp_all add: field_simps)
  from double_between_int [OF _ _ a] obtain u where u: "double ?a = Fin u" "0 \<le> u" "u \<le> 255"
    by auto
  have q: "Fin (real n) / Fin (real count) = Fin u" using assms(2) u(1) by simp
  have "of_int k \<le> u + of_int k" "u + of_int k \<le> of_int (255 + k)" using u by simp_all
  from double_between_int [OF assms(3) _ this] assms(4)
  obtain v where v: "double (u + of_int k) = Fin v" "of_int k \<le> v" "v \<le> of_int (255 + k)"
    by auto
  define j where "j = \<lfloor>v + 1 / 2\<rfloor>"
  have j: "0 \<le> j" using v(2) assms(3) unfolding j_def by linarith
  have res: "Math_min (Fin 255) (Math_round (Fin (real n) / Fin (real count) + Fin (of_int k)))
      = Fin (of_int (min 255 j))"
    unfolding q by (simp add: v(1) j_def [symmetric] Math_min_255)
  show ?thesis unfolding res using j by (simp add: isIntIn_def)
qed

section \<open>The clamped rectangle\<close>

lemma Math_max_0_int: "Math_max (Fin 0) (Fin (of_int k)) = Fin (of_int (max 0 k))"
  by (simp add: Math_max_def max_def)

lemma Math_min_int: "Math_min (Fin (of_int j)) (Fin (of_int k)) = Fin (of_int (min j k))"
  by (simp add: Math_min_def min_def)

lemma not_le0_int: "(\<not> Fin (of_int k) \<le> Fin 0) = (0 < k)"
  by auto

lemma le0_int: "(Fin (of_int k) \<le> Fin 0) = (k \<le> 0)"
  by auto

text \<open>
  \<open>canvas.width - sx\<close> for an integer \<open>sx \<ge> 0\<close>: the difference is exact unless \<open>sx\<close> is
  beyond \<open>2^53\<close>, and then it is not positive.
\<close>

lemma canvas_minus:
  assumes "W < 2 ^ 24" "0 \<le> i"
  shows "Fin (real W) - Fin (of_int i) = Fin (of_int (int W - i)) \<or>
         (int W < i \<and> Fin (real W) - Fin (of_int i) \<le> Fin 0)"
proof (cases "i < 2 ^ 53")
  case True
  have "int W < 2 ^ 24" using assms(1) by (metis of_nat_less_iff of_nat_numeral of_nat_power)
  then have "\<bar>int W - i\<bar> < 2 ^ 53" using True assms(2) by simp
  then have "double (of_int (int W - i)) = Fin (of_int (int W - i))" by (rule double_int)
  then show ?thesis by (simp add: minus_jsnum_def)
next
  case False
  have w: "int W < 2 ^ 24" using assms(1) by (metis of_nat_less_iff of_nat_numeral of_nat_power)
  then have lt: "int W < i" using False by simp
  then have "real W - of_int i \<le> 0" by simp
  then have "double (real W - of_int i) \<le> Fin 0" by (rule double_nonpos)
  then show ?thesis using lt by (simp add: minus_jsnum_def)
qed

lemma canvas_minus_zero: "W < 2 ^ 24 \<Longrightarrow> Fin (real W) - Fin 0 = Fin (real W)"
  using double_nat [of W] by (simp add: minus_jsnum_def)

lemma Math_min_nonpos: "u \<le> Fin 0 \<Longrightarrow> Math_min u v \<le> Fin 0 \<or> Math_min u v = NaN"
  by (cases u; cases v) (auto simp: Math_min_def)

lemma clamp_axis:
  assumes "n = Math_min (Fin (real W) - Math_max (Fin 0) (Math_floor a)) (Math_floor e)"
    and "\<not> n \<le> Fin 0" and "n \<noteq> NaN" and "W < 2 ^ 24"
  shows "\<exists>i k. Math_max (Fin 0) (Math_floor a) = Fin (of_int i) \<and> n = Fin (of_int k) \<and>
           0 \<le> i \<and> 0 < k \<and> i + k \<le> int W"
proof -
  have fin: ?thesis
    if s: "Math_max (Fin 0) (Math_floor a) = Fin (of_int i)" and i0: "0 \<le> i" for i
  proof -
    from canvas_minus [OF assms(4) i0] assms(1,2,3) Math_min_nonpos [of "Fin (real W) - Fin (of_int i)" "Math_floor e"]
    have d: "Fin (real W) - Fin (of_int i) = Fin (of_int (int W - i))"
      unfolding s by auto
    show ?thesis
    proof (cases e)
      case (Fin re)
      let ?k = "min (int W - i) \<lfloor>re\<rfloor>"
      have n: "n = Fin (of_int ?k)"
        using assms(1) unfolding s d Fin Math_floor.simps Math_min_int .
      have "0 < ?k" using assms(2) unfolding n not_le0_int .
      then show ?thesis using s n i0 by (intro exI [of _ i] exI [of _ ?k]) simp
    next
      case PosInf
      let ?k = "int W - i"
      have n: "n = Fin (of_int ?k)"
        using assms(1) PosInf unfolding s d by (simp add: Math_min_def)
      have "0 < ?k" using assms(2) unfolding n not_le0_int .
      then show ?thesis using s n i0 by (intro exI [of _ i] exI [of _ ?k]) simp
    next
      case NegInf
      then have "n = NegInf" using assms(1) unfolding s d by (simp add: Math_min_def)
      then show ?thesis using assms(2) by simp
    next
      case NaN
      then show ?thesis using assms(1,3) by (simp add: Math_min_def)
    qed
  qed
  show ?thesis
  proof (cases a)
    case (Fin ra)
    have "Math_max (Fin 0) (Math_floor a) = Fin (of_int (max 0 \<lfloor>ra\<rfloor>))"
      using Fin by (simp add: Math_max_0_int)
    then show ?thesis by (rule fin) simp
  next
    case PosInf
    then have "n = NegInf \<or> n = NaN"
      using assms(1) by (cases e) (simp_all add: Math_min_def Math_max_def minus_jsnum_def)
    then show ?thesis using assms(2,3) by auto
  next
    case NegInf
    have "Math_max (Fin 0) (Math_floor a) = Fin (of_int 0)"
      using NegInf by (simp add: Math_max_def)
    then show ?thesis by (rule fin) simp
  next
    case NaN
    then have "n = NaN" using assms(1) by (simp add: Math_min_def Math_max_def minus_jsnum_def)
    then show ?thesis using assms(3) by simp
  qed
qed

lemma Math_floor_NaN [simp]: "(Math_floor v = NaN) = (v = NaN)"
  by (cases v) simp_all

lemma Math_max_NaN [simp]: "(Math_max u v = NaN) = (u = NaN \<or> v = NaN)"
  by (cases u; cases v) (simp_all add: Math_max_def)

lemma Math_min_NaN [simp]: "(Math_min u v = NaN) = (u = NaN \<or> v = NaN)"
  by (cases u; cases v) (simp_all add: Math_min_def)

lemma Fin_minus_NaN [simp]: "(Fin u - v = NaN) = (v = NaN)"
  by (cases v) (simp_all add: minus_jsnum_def)

text \<open>Each clamped extent is \<open>NaN\<close> exactly when one of its two inputs is.\<close>

lemma clamp_NaN:
  "(Math_min (Fin (real W) - Math_max (Fin 0) (Math_floor a)) (Math_floor e) = NaN) = (a = NaN \<or> e = NaN)"
  by simp

lemma times_literal_NaN: "0 < c \<Longrightarrow> (h * Fin c = NaN) = (h = NaN)"
  by (cases h) simp_all

lemma scaled_height_NaN [simp]:
  "(h * double 0.4 = NaN) = (h = NaN)" "(h * double (2 / 5) = NaN) = (h = NaN)"
proof -
  show "(h * double 0.4 = NaN) = (h = NaN)"
    unfolding literals by (rule times_literal_NaN) simp
  then show "(h * double (2 / 5) = NaN) = (h = NaN)" by simp
qed

lemma toLong_NaN [simp]: "toLong NaN = None"
  by simp

lemma getImageData_NaN:
  "sx = NaN \<or> sy = NaN \<or> sw = NaN \<or> sh = NaN \<Longrightarrow> getImageData cv sx sy sw sh = Inl TypeError"
  by (auto simp: getImageData_def split: option.splits)

lemma getImageData_ints:
  "0 < k \<Longrightarrow> 0 < l \<Longrightarrow>
     getImageData cv (Fin (of_int i)) (Fin (of_int j)) (Fin (of_int k)) (Fin (of_int l))
       = Inr (imageBytes cv i j (nat k) (nat l))"
  by (simp add: getImageData_def)

text \<open>
  The rectangle of a call that passes the guard: with a \<open>NaN\<close> among the inputs the
  rectangle holds a \<open>NaN\<close>; otherwise it is a rectangle of whole pixels inside the canvas.
\<close>

lemma rect_cases:
  assumes sx: "sx = Math_max (Fin 0) (Math_floor x)"
    and sy: "sy = Math_max (Fin 0) (Math_floor y)"
    and sw: "sw = Math_min (Fin (real (cwidth cv)) - Math_max (Fin 0) (Math_floor x)) (Math_floor w)"
    and sh: "sh = Math_min (Fin (real (cheight cv)) - Math_max (Fin 0) (Math_floor y)) (Math_floor h')"
    and guard: "\<not> (sw \<le> Fin 0 \<or> sh \<le> Fin 0)"
  shows "(x = NaN \<or> y = NaN \<or> w = NaN \<or> h' = NaN) \<and> (sx = NaN \<or> sy = NaN \<or> sw = NaN \<or> sh = NaN) \<or>
         x \<noteq> NaN \<and> y \<noteq> NaN \<and> w \<noteq> NaN \<and> h' \<noteq> NaN \<and>
         (\<exists>i j k l. sx = Fin (of_int i) \<and> sy = Fin (of_int j) \<and> sw = Fin (of_int k) \<and> sh = Fin (of_int l) \<and>
            0 \<le> i \<and> 0 \<le> j \<and> 0 < k \<and> 0 < l \<and> i + k \<le> int (cwidth cv) \<and> j + l \<le> int (cheight cv))"
proof (cases "x = NaN \<or> y = NaN \<or> w = NaN \<or> h' = NaN")
  case True
  then have "sw = NaN \<or> sh = NaN" unfolding sw sh clamp_NaN by blast
  with True show ?thesis by blast
next
  case False
  then have "sw \<noteq> NaN" "sh \<noteq> NaN" unfolding sw sh clamp_NaN by blast+
  with guard clamp_axis [OF sw _ _ cwidth_bound(1)] clamp_axis [OF sh _ _ cwidth_bound(2)]
  obtain i k j l where "sx = Fin (of_int i)" "sw = Fin (of_int k)" "0 \<le> i" "0 < k" "i + k \<le> int (cwidth cv)"
    "sy = Fin (of_int j)" "sh = Fin (of_int l)" "0 \<le> j" "0 < l" "j + l \<le> int (cheight cv)"
    unfolding sx sy by blast
  with False show ?thesis by blast
qed

lemma region_length:
  assumes "0 < k" "0 < l" "i + k \<le> int (cwidth cv)" "j + l \<le> int (cheight cv)" "0 \<le> i" "0 \<le> j"
  shows "length (imageBytes cv i j (nat k) (nat l)) \<le> 2 ^ 50"
proof -
  have "nat k \<le> cwidth cv" "nat l \<le> cheight cv" using assms by linarith+
  then have "nat k \<le> 2 ^ 24" "nat l \<le> 2 ^ 24"
    using cwidth_bound [of cv] by linarith+
  then have "nat k * nat l \<le> 2 ^ 24 * 2 ^ 24" by (rule mult_le_mono)
  then have "4 * nat k * nat l \<le> 4 * (2 ^ 24 * 2 ^ 24)" by simp
  then show ?thesis by (simp add: length_imageBytes)
qed

section \<open>Totality of the sampler\<close>

lemma isIntIn_numeral [simp]:
  "isIntIn 0 255 (Fin 200)" "isIntIn 0 255 (Fin 160)" "isIntIn 0 255 (Fin 140)" "isIntIn 0 255 (Fin 220)"
  by (simp_all add: isIntIn_def)

lemma part0_sampled:
  assumes "0 < k" "0 < l" "i + k \<le> int (cwidth cv)" "j + l \<le> int (cheight cv)" "0 \<le> i" "0 \<le> j"
    and rect: "sampleRect_part0 cv x y w h = (Fin (of_int i), Fin (of_int j), Fin (of_int k), Fin (of_int l))"
  shows "\<exists>c. computeAverageColor_part0 cv x y w h = Inr c \<and>
             isIntIn 0 255 (r c) \<and> isIntIn 0 255 (g c) \<and> isIntIn 0 255 (b c)"
proof -
  define data where "data = imageBytes cv i j (nat k) (nat l)"
  have gid: "getImageData cv (Fin (of_int i)) (Fin (of_int j)) (Fin (of_int k)) (Fin (of_int l)) = Inr data"
    unfolding data_def using assms(1,2) by (rule getImageData_ints)
  have len: "length data = 4 * nat k * nat l" by (simp add: data_def length_imageBytes)
  have pos: "0 < length data" using assms(1,2) by (simp add: len)
  have dv: "4 dvd length data" by (simp add: len)
  have le: "length data \<le> 2 ^ 50" unfolding data_def using assms(1-6) by (rule region_length)
  from sumLoop_part0_sums [OF dv _ le, of 0 "(Fin 0, Fin 0, Fin 0, 0)" 0 0 0 0] pos
  obtain nr ng nb count where loop:
    "sumLoop_part0 data 0 (Fin 0, Fin 0, Fin 0, 0) = (Fin (real nr), Fin (real ng), Fin (real nb), count)"
    "nr \<le> 255 * count" "ng \<le> 255 * count" "nb \<le> 255 * count" "0 < count"
    by auto
  have guard: "\<not> (Fin (of_int k) \<le> Fin 0 \<or> Fin (of_int l) \<le> Fin 0)"
    using assms(1,2) by (simp add: le0_int)
  have res: "computeAverageColor_part0 cv x y w h =
      Inr \<lparr>r = Math_min (Fin 255) (Math_round (Fin (real nr) / Fin (real count) + Fin (of_int 10))),
           g = Math_min (Fin 255) (Math_round (Fin (real ng) / Fin (real count) + Fin (of_int 10))),
           b = Math_min (Fin 255) (Math_round (Fin (real nb) / Fin (real count) + Fin (of_int 10)))\<rparr>"
    using guard loop(5) by (simp add: computeAverageColor_part0_def rect gid loop(1))
  show ?thesis unfolding res
    using channel_in_range [OF loop(2) loop(5), of 10] channel_in_range [OF loop(3) loop(5), of 10]
      channel_in_range [OF loop(4) loop(5), of 10]
    by simp
qed

lemma script_sampled:
  assumes "0 < k" "0 < l" "i + k \<le> int (cwidth cv)" "j + l \<le> int (cheight cv)" "0 \<le> i" "0 \<le> j"
    and rect: "sampleRect_script cv x y w h = (Fin (of_int i), Fin (of_int j), Fin (of_int k), Fin (of_int l))"
  shows "\<exists>c. computeAverageColor_script cv x y w h = Inr c \<and>
             isIntIn 0 255 (r c) \<and> isIntIn 0 255 (g c) \<and> isIntIn 0 255 (b c)"
proof -
  define data where "data = imageBytes cv i j (nat k) (nat l)"
  have gid: "getImageData cv (Fin (of_int i)) (Fin (of_int j)) (Fin (of_int k)) (Fin (of_int l)) = Inr data"
    unfolding data_def using assms(1,2) by (rule getImageData_ints)
  have len: "length data = 4 * nat k * nat l" by (simp add: data_def length_imageBytes)
  have dv: "4 dvd length data" by (simp add: len)
  have le: "length data \<le> 2 ^ 50" unfolding data_def using assms(1-6) by (rule region_length)
  from sumLoop_script_sums [OF dv _ le, of 0 "(Fin 0, Fin 0, Fin 0, 0)" 0 0 0 0]
  obtain nr ng nb count where loop:
    "sumLoop_script data 0 (Fin 0, Fin 0, Fin 0, 0) = (Fin (real nr), Fin (real ng), Fin (real nb), count)"
    "nr \<le> 255 * count" "ng \<le> 255 * count" "nb \<le> 255 * count"
    by auto
  have guard: "\<not> (Fin (of_int k) \<le> Fin 0 \<or> Fin (of_int l) \<le> Fin 0)"
    using assms(1,2) by (simp add: le0_int)
  show ?thesis
  proof (cases "count = 0")
    case True
    then show ?thesis using guard
      by (simp add: computeAverageColor_script_def rect gid loop(1) default_script_def)
  next
    case nz: False
    then have cp: "0 < count" by simp
    have res: "computeAverageColor_script cv x y w h =
        Inr \<lparr>r = Math_min (Fin 255) (Math_round (Fin (real nr) / Fin (real count) + Fin (of_int 15))),
             g = Math_min (Fin 255) (Math_round (Fin (real ng) / Fin (real count) + Fin (of_int 15))),
             b = Math_min (Fin 255) (Math_round (Fin (real nb) / Fin (real count) + Fin (of_int 15)))\<rparr>"
      using guard nz by (simp add: computeAverageColor_script_def rect gid loop(1) Let_def)
    show ?thesis unfolding res
      using channel_in_range [OF loop(2) cp, of 15] channel_in_range [OF loop(3) cp, of 15]
        channel_in_range [OF loop(4) cp, of 15]
      by simp
  qed
qed

text \<open>
  What a call of the sampler does, by the guard and the inputs: the default colour when
  the guard holds; an exception from \<open>getImageData\<close> when the guard fails and an input is
  \<open>NaN\<close>; a colour of integer channels from 0 to 255 in every other case.
\<close>

lemma part0_outcome:
  assumes rect: "sampleRect_part0 cv x y w h = (sx, sy, sw, sh)"
  shows "(sw \<le> Fin 0 \<or> sh \<le> Fin 0 \<longrightarrow> computeAverageColor_part0 cv x y w h = Inr default_part0)"
    and "(\<not> (sw \<le> Fin 0 \<or> sh \<le> Fin 0) \<and> (x = NaN \<or> y = NaN \<or> w = NaN \<or> h = NaN) \<longrightarrow>
            computeAverageColor_part0 cv x y w h = Inl TypeError)"
    and "(sw \<le> Fin 0 \<or> sh \<le> Fin 0 \<or> (x \<noteq> NaN \<and> y \<noteq> NaN \<and> w \<noteq> NaN \<and> h \<noteq> NaN) \<longrightarrow>
            (\<exists>c. computeAverageColor_part0 cv x y w h = Inr c \<and>
                 isIntIn 0 255 (r c) \<and> isIntIn 0 255 (g c) \<and> isIntIn 0 255 (b c)))"
proof -
  from rect have s: "sx = Math_max (Fin 0) (Math_floor x)" "sy = Math_max (Fin 0) (Math_floor y)"
    "sw = Math_min (Fin (real (cwidth cv)) - Math_max (Fin 0) (Math_floor x)) (Math_floor w)"
    "sh = Math_min (Fin (real (cheight cv)) - Math_max (Fin 0) (Math_floor y)) (Math_floor h)"
    by (auto simp: sampleRect_part0_def Let_def)
  show d: "(sw \<le> Fin 0 \<or> sh \<le> Fin 0 \<longrightarrow> computeAverageColor_part0 cv x y w h = Inr default_part0)"
    by (simp add: computeAverageColor_part0_def rect)
  show "(\<not> (sw \<le> Fin 0 \<or> sh \<le> Fin 0) \<and> (x = NaN \<or> y = NaN \<or> w = NaN \<or> h = NaN) \<longrightarrow>
            computeAverageColor_part0 cv x y w h = Inl TypeError)"
  proof (intro impI, elim conjE)
    assume g: "\<not> (sw \<le> Fin 0 \<or> sh \<le> Fin 0)" and n: "x = NaN \<or> y = NaN \<or> w = NaN \<or> h = NaN"
    from rect_cases [OF s g] n have "sx = NaN \<or> sy = NaN \<or> sw = NaN \<or> sh = NaN" by blast
    then have "getImageData cv sx sy sw sh = Inl TypeError" by (rule getImageData_NaN)
    then show "computeAverageColor_part0 cv x y w h = Inl TypeError"
      using g by (simp add: computeAverageColor_part0_def rect)
  qed
  show "(sw \<le> Fin 0 \<or> sh \<le> Fin 0 \<or> (x \<noteq> NaN \<and> y \<noteq> NaN \<and> w \<noteq> NaN \<and> h \<noteq> NaN) \<longrightarrow>
            (\<exists>c. computeAverageColor_part0 cv x y w h = Inr c \<and>
                 isIntIn 0 255 (r c) \<and> isIntIn 0 255 (g c) \<and> isIntIn 0 255 (b c)))"
  proof (cases "sw \<le> Fin 0 \<or> sh \<le> Fin 0")
    case True
    with d show ?thesis by (simp add: default_part0_def)
  next
    case False
    show ?thesis
    proof (intro impI)
      assume "sw \<le> Fin 0 \<or> sh \<le> Fin 0 \<or> (x \<noteq> NaN \<and> y \<noteq> NaN \<and> w \<noteq> NaN \<and> h \<noteq> NaN)"
      with False have nn: "x \<noteq> NaN \<and> y \<noteq> NaN \<and> w \<noteq> NaN \<and> h \<noteq> NaN" by blast
      from rect_cases [OF s False] nn
      obtain i j k l where ij: "sx = Fin (of_int i)" "sy = Fin (of_int j)" "sw = Fin (of_int k)"
        "sh = Fin (of_int l)" "0 \<le> i" "0 \<le> j" "0 < k" "0 < l" "i + k \<le> int (cwidth cv)"
        "j + l \<le> int (cheight cv)"
        by blast
      show "\<exists>c. computeAverageColor_part0 cv x y w h = Inr c \<and>
                 isIntIn 0 255 (r c) \<and> isIntIn 0 255 (g c) \<and> isIntIn 0 255 (b c)"
        using ij(7,8,9,10,5,6) rect [unfolded ij(1-4)] by (rule part0_sampled)
    qed
  qed
qed

lemma script_outcome:
  assumes rect: "sampleRect_script cv x y w h = (sx, sy, sw, sh)"
  shows "(sw \<le> Fin 0 \<or> sh \<le> Fin 0 \<longrightarrow> computeAverageColor_script cv x y w h = Inr default_script)"
    and "(\<not> (sw \<le> Fin 0 \<or> sh \<le> Fin 0) \<and> (x = NaN \<or> y = NaN \<or> w = NaN \<or> h = NaN) \<longrightarrow>
            computeAverageColor_script cv x y w h = Inl TypeError)"
    and "(sw \<le> Fin 0 \<or> sh \<le> Fin 0 \<or> (x \<noteq> NaN \<and> y \<noteq> NaN \<and> w \<noteq> NaN \<and> h \<noteq> NaN) \<longrightarrow>
            (\<exists>c. computeAverageColor_script cv x y w h = Inr c \<and>
                 isIntIn 0 255 (r c) \<and> isIntIn 0 255 (g c) \<and> isIntIn 0 255 (b c)))"
proof -
  from rect have s: "sx = Math_max (Fin 0) (Math_floor x)" "sy = Math_max (Fin 0) (Math_floor y)"
    "sw = Math_min (Fin (real (cwidth cv)) - Math_max (Fin 0) (Math_floor x)) (Math_floor w)"
    "sh = Math_min (Fin (real (cheight cv)) - Math_max (Fin 0) (Math_floor y)) (Math_floor (h * double 0.4))"
    by (auto simp: sampleRect_script_def Let_def)
  show d: "(sw \<le> Fin 0 \<or> sh \<le> Fin 0 \<longrightarrow> computeAverageColor_script cv x y w h = Inr default_script)"
    by (simp add: computeAverageColor_script_def rect)
  show "(\<not> (sw \<le> Fin 0 \<or> sh \<le> Fin 0) \<and> (x = NaN \<or> y = NaN \<or> w = NaN \<or> h = NaN) \<longrightarrow>
            computeAverageColor_script cv x y w h = Inl TypeError)"
  proof (intro impI, elim conjE)
    assume g: "\<not> (sw \<le> Fin 0 \<or> sh \<le> Fin 0)" and n: "x = NaN \<or> y = NaN \<or> w = NaN \<or> h = NaN"
    from rect_cases [OF s g] n have "sx = NaN \<or> sy = NaN \<or> sw = NaN \<or> sh = NaN" by simp blast
    then have "getImageData cv sx sy sw sh = Inl TypeError" by (rule getImageData_NaN)
    then show "computeAverageColor_script cv x y w h = Inl TypeError"
      using g by (simp add: computeAverageColor_script_def rect)
  qed
  show "(sw \<le> Fin 0 \<or> sh \<le> Fin 0 \<or> (x \<noteq> NaN \<and> y \<noteq> NaN \<and> w \<noteq> NaN \<and> h \<noteq> NaN) \<longrightarrow>
            (\<exists>c. computeAverageColor_script cv x y w h = Inr c \<and>
                 isIntIn 0 255 (r c) \<and> isIntIn 0 255 (g c) \<and> isIntIn 0 255 (b c)))"
  proof (cases "sw \<le> Fin 0 \<or> sh \<le> Fin 0")
    case True
    with d show ?thesis by (simp add: default_script_def)
  next
    case False
    show ?thesis
    proof (intro impI)
      assume "sw \<le> Fin 0 \<or> sh \<le> Fin 0 \<or> (x \<noteq> NaN \<and> y \<noteq> NaN \<and> w \<noteq> NaN \<and> h \<noteq> NaN)"
      with False have nn: "x \<noteq> NaN \<and> y \<noteq> NaN \<and> w \<noteq> NaN \<and> h \<noteq> NaN" by blast
      from rect_cases [OF s False] nn
      obtain i j k l where ij: "sx = Fin (of_int i)" "sy = Fin (of_int j)" "sw = Fin (of_int k)"
        "sh = Fin (of_int l)" "0 \<le> i" "0 \<le> j" "0 < k" "0 < l" "i + k \<le> int (cwidth cv)"
        "j + l \<le> int (cheight cv)"
        by simp blast
      show "\<exists>c. computeAverageColor_script cv x y w h = Inr c \<and>
                 isIntIn 0 255 (r c) \<and> isIntIn 0 255 (g c) \<and> isIntIn 0 255 (b c)"
        using ij(7,8,9,10,5,6) rect [unfolded ij(1-4)] by (rule script_sampled)
    qed
  qed
qed

section \<open>Sampling a region of one colour\<close>

lemma uniform_read:
  assumes "4 dvd length data" "4 dvd i" "i < length data"
    and "\<forall>k<length data. data ! k = [R, G, B, A] ! (k mod 4)"
  shows "byteAt data i = Fin (real (unat R))" "byteAt data (i + 1) = Fin (real (unat G))"
    "byteAt data (i + 2) = Fin (real (unat B))"
proof -
  have in3: "i + 3 < length data" using quad_step [OF assms(1,2,3)] .
  have m0: "i mod 4 = 0" using assms(2) by simp
  have m1: "(i + 1) mod 4 = 1" using assms(2) by presburger
  have m2: "(i + 2) mod 4 = 2" using assms(2) by presburger
  show "byteAt data i = Fin (real (unat R))"
    using assms(3,4) m0 by (simp add: byteAt_def)
  show "byteAt data (i + 1) = Fin (real (unat G))"
    using in3 assms(4) m1 by (simp add: byteAt_def)
  show "byteAt data (i + 2) = Fin (real (unat B))"
    using in3 assms(4) m2 by (simp add: byteAt_def)
qed

lemma uniform_sum_step:
  assumes "40 * count \<le> i" "i < len" "len \<le> 2 ^ 50"
  shows "Fin (real (count * unat (c :: 8 word))) + Fin (real (unat c)) = Fin (real ((count + 1) * unat c))"
proof -
  have "count * unat c \<le> 255 * count" using unat_byte_le [of c] by simp
  from sum_bound [OF this assms unat_byte_le [of c]]
  have "Fin (real (count * unat c)) + Fin (real (unat c)) = Fin (real (count * unat c + unat c))"
    by (rule plus_nat_exact)
  then show ?thesis by (simp add: algebra_simps)
qed

lemma sumLoop_part0_uniform:
  "4 dvd length data \<Longrightarrow> \<forall>k<length data. data ! k = [R, G, B, A] ! (k mod 4) \<Longrightarrow> 4 dvd i \<Longrightarrow>
   length data \<le> 2 ^ 50 \<Longrightarrow> 40 * count \<le> i \<Longrightarrow>
   acc = (Fin (real (count * unat R)), Fin (real (count * unat G)), Fin (real (count * unat B)), count) \<Longrightarrow>
   \<exists>count'. sumLoop_part0 data i acc =
       (Fin (real (count' * unat R)), Fin (real (count' * unat G)), Fin (real (count' * unat B)), count') \<and>
     count \<le> count' \<and> (i < length data \<longrightarrow> 0 < count')"
proof (induction data i acc arbitrary: count rule: sumLoop_part0.induct)
  case (1 data i rs gs bs cnt)
  from "1.prems"(6) have acc: "rs = Fin (real (count * unat R))" "gs = Fin (real (count * unat G))"
    "bs = Fin (real (count * unat B))" "cnt = count"
    by simp_all
  show ?case
  proof (cases "i < length data")
    case False
    then show ?thesis using acc by (simp add: sumLoop_part0_stop)
  next
    case True
    note rd = uniform_read [OF "1.prems"(1,3) True "1.prems"(2)]
    note st = uniform_sum_step [OF "1.prems"(5) True "1.prems"(4)]
    have d: "4 dvd i + 40" using "1.prems"(3) by simp
    have c40: "40 * (count + 1) \<le> i + 40" using "1.prems"(5) by simp
    have a': "(rs + byteAt data i, gs + byteAt data (i + 1), bs + byteAt data (i + 2), cnt + 1)
        = (Fin (real ((count + 1) * unat R)), Fin (real ((count + 1) * unat G)),
           Fin (real ((count + 1) * unat B)), count + 1)"
      unfolding rd acc st ..
    from "1.IH" [OF True "1.prems"(1,2) d "1.prems"(4) c40 a']
    obtain count' where
      "sumLoop_part0 data (i + 40)
          (rs + byteAt data i, gs + byteAt data (i + 1), bs + byteAt data (i + 2), cnt + 1)
         = (Fin (real (count' * unat R)), Fin (real (count' * unat G)), Fin (real (count' * unat B)), count')"
      "count + 1 \<le> count'"
      by blast
    then show ?thesis
      by (intro exI [of _ count']) (simp add: sumLoop_part0_step [OF True])
  qed
qed

text \<open>
  The brightness \<open>(r + g + b) / 3\<close> of three bytes: the sum is exact, the quotient is
  rounded, and rounding keeps it on its side of the two thresholds.
\<close>

lemma brightness_kept:
  assumes "120 < u + v + t" "u + v + t < 690"
  shows "Fin 40 < (Fin (real u) + Fin (real v) + Fin (real t)) / Fin 3 \<and>
         (Fin (real u) + Fin (real v) + Fin (real t)) / Fin 3 < Fin 230"
proof -
  define n where "n = u + v + t"
  have lt: "u + v < 2 ^ 53" "u + v + t < 2 ^ 53" using assms(2) by simp_all
  have s1: "Fin (real u) + Fin (real v) = Fin (real (u + v))" using lt(1) by (rule plus_nat_exact)
  have s2: "Fin (real (u + v)) + Fin (real t) = Fin (real (u + v + t))" using lt(2) by (rule plus_nat_exact)
  have s: "Fin (real u) + Fin (real v) + Fin (real t) = Fin (real n)"
    by (simp only: s1 s2 n_def)
  have lohi: "double (161 / 4) = Fin (161 / 4)" "double (919 / 4) = Fin (919 / 4)"
    by (simp_all add: double_eval)
  have "121 \<le> n" "n \<le> 689" using assms by (simp_all add: n_def)
  then have "161 / 4 \<le> real n / 3" "real n / 3 \<le> 919 / 4" by simp_all
  from double_between [OF lohi _ this]
  obtain q where q: "double (real n / 3) = Fin q" "161 / 4 \<le> q" "q \<le> 919 / 4" by auto
  show ?thesis unfolding s using q by simp
qed

lemma sumLoop_script_uniform:
  "4 dvd length data \<Longrightarrow> \<forall>k<length data. data ! k = [R, G, B, A] ! (k mod 4) \<Longrightarrow>
   120 < unat R + unat G + unat B \<Longrightarrow> unat R + unat G + unat B < 690 \<Longrightarrow> 4 dvd i \<Longrightarrow>
   length data \<le> 2 ^ 50 \<Longrightarrow> 40 * count \<le> i \<Longrightarrow>
   acc = (Fin (real (count * unat R)), Fin (real (count * unat G)), Fin (real (count * unat B)), count) \<Longrightarrow>
   \<exists>count'. sumLoop_script data i acc =
       (Fin (real (count' * unat R)), Fin (real (count' * unat G)), Fin (real (count' * unat B)), count') \<and>
     count \<le> count' \<and> (i < length data \<longrightarrow> 0 < count')"
proof (induction data i acc arbitrary: count rule: sumLoop_script.induct)
  case (1 data i rs gs bs cnt)
  from "1.prems"(8) have acc: "rs = Fin (real (count * unat R))" "gs = Fin (real (count * unat G))"
    "bs = Fin (real (count * unat B))" "cnt = count"
    by simp_all
  show ?case
  proof (cases "i < length data")
    case False
    then show ?thesis using acc by (simp add: sumLoop_script_stop)
  next
    case True
    note rd = uniform_read [OF "1.prems"(1,5) True "1.prems"(2)]
    note st = uniform_sum_step [OF "1.prems"(7) True "1.prems"(6)]
    have d: "4 dvd i + 40" using "1.prems"(5) by simp
    have c40: "40 * (count + 1) \<le> i + 40" using "1.prems"(7) by simp
    let ?br = "(byteAt data i + byteAt data (i + 1) + byteAt data (i + 2)) / Fin 3"
    have keep: "Fin 40 < ?br \<and> ?br < Fin 230"
      unfolding rd using "1.prems"(3,4) by (rule brightness_kept)
    have eq: "sumLoop_script data i (rs, gs, bs, cnt) = sumLoop_script data (i + 40)
           (rs + byteAt data i, gs + byteAt data (i + 1), bs + byteAt data (i + 2), cnt + 1)"
      by (subst sumLoop_script_step [OF True]) (simp only: keep if_True simp_thms)
    have a': "(rs + byteAt data i, gs + byteAt data (i + 1), bs + byteAt data (i + 2), cnt + 1)
        = (Fin (real ((count + 1) * unat R)), Fin (real ((count + 1) * unat G)),
           Fin (real ((count + 1) * unat B)), count + 1)"
      unfolding rd acc st ..
    from "1.IH"(1) [OF True refl refl refl refl keep "1.prems"(1,2,3,4) d "1.prems"(6) c40 a']
    obtain count' where
      "sumLoop_script data (i + 40)
          (rs + byteAt data i, gs + byteAt data (i + 1), bs + byteAt data (i + 2), cnt + 1)
         = (Fin (real (count' * unat R)), Fin (real (count' * unat G)), Fin (real (count' * unat B)), count')"
      "count + 1 \<le> count'"
      by blast
    then show ?thesis
      unfolding eq by (intro exI [of _ count']) simp
  qed
qed

lemma uniform_channel:
  assumes "0 < count" "n \<le> 255" "k \<le> 1000"
  shows "Math_min (Fin 255) (Math_round (Fin (real (count * n)) / Fin (real count) + Fin (real k)))
           = Fin (real (min 255 (n + k)))"
proof -
  have "real (count * n) / real count = real n" using assms(1) by simp
  moreover have "double (real n) = Fin (real n)" using assms(2) by (intro double_nat) simp
  ultimately have "Fin (real (count * n)) / Fin (real count) = Fin (real n)"
    using assms(1) by simp
  moreover have "Fin (real n) + Fin (real k) = Fin (real (n + k))"
    using assms(2,3) by (intro plus_nat_exact) simp
  moreover have "Math_round (Fin (real (n + k))) = Fin (real (n + k))"
  proof -
    have "\<lfloor>real (n + k) + 1 / 2\<rfloor> = int (n + k)" by linarith
    then show ?thesis by simp
  qed
  ultimately show ?thesis
    by (simp add: Math_min_def min_def)
qed

lemma imageBytes_uniform:
  assumes "\<forall>col<w. \<forall>row<h. pixelAt cv (x + int col) (y + int row) = c"
  shows "\<forall>k<length (imageBytes cv x y w h). imageBytes cv x y w h ! k = [red c, green c, blue c, alpha c] ! (k mod 4)"
proof (intro allI impI)
  fix k assume "k < length (imageBytes cv x y w h)"
  then have "k < 4 * w * h" by (simp add: length_imageBytes)
  from imageBytes_nth [OF this, of cv x y] assms
  show "imageBytes cv x y w h ! k = [red c, green c, blue c, alpha c] ! (k mod 4)"
    by (auto simp: pixelBytes_def)
qed

lemma part0_sample_uniform:
  assumes rect: "sampleRect_part0 cv x y w h = (Fin (of_int i), Fin (of_int j), Fin (of_int k), Fin (of_int l))"
    and pos: "0 < k" "0 < l"
    and inside: "0 \<le> i" "0 \<le> j" "i + k \<le> int (cwidth cv)" "j + l \<le> int (cheight cv)"
    and uni: "\<forall>col<nat k. \<forall>row<nat l. pixelAt cv (i + int col) (j + int row) = c"
  shows "computeAverageColor_part0 cv x y w h =
           Inr \<lparr>r = Fin (real (min 255 (unat (red c) + 10))),
                g = Fin (real (min 255 (unat (green c) + 10))),
                b = Fin (real (min 255 (unat (blue c) + 10)))\<rparr>"
proof -
  define data where "data = imageBytes cv i j (nat k) (nat l)"
  have gid: "getImageData cv (Fin (of_int i)) (Fin (of_int j)) (Fin (of_int k)) (Fin (of_int l)) = Inr data"
    unfolding data_def using pos by (rule getImageData_ints)
  have len: "length data = 4 * nat k * nat l" by (simp add: data_def length_imageBytes)
  have lpos: "0 < length data" using pos by (simp add: len)
  have dv: "4 dvd length data" by (simp add: len)
  have le: "length data \<le> 2 ^ 50" unfolding data_def using pos inside(3,4,1,2) by (rule region_length)
  have u: "\<forall>n<length data. data ! n = [red c, green c, blue c, alpha c] ! (n mod 4)"
    unfolding data_def using uni by (rule imageBytes_uniform)
  from sumLoop_part0_uniform [OF dv u _ le, of 0 0 "(Fin 0, Fin 0, Fin 0, 0)"] lpos
  obtain count where loop: "sumLoop_part0 data 0 (Fin 0, Fin 0, Fin 0, 0) =
      (Fin (real (count * unat (red c))), Fin (real (count * unat (green c))),
       Fin (real (count * unat (blue c))), count)" and cp: "0 < count"
    by auto
  have guard: "\<not> (Fin (of_int k) \<le> Fin 0 \<or> Fin (of_int l) \<le> Fin 0)"
    using pos by (simp add: le0_int)
  have ten: "Fin 10 = Fin (real 10)" by simp
  note ch = uniform_channel [OF cp unat_byte_le, of 10]
  show ?thesis
    unfolding computeAverageColor_part0_def rect prod.case gid sum.case loop ten
    using guard cp ch by simp
qed

lemma script_sample_uniform:
  assumes rect: "sampleRect_script cv x y w h = (Fin (of_int i), Fin (of_int j), Fin (of_int k), Fin (of_int l))"
    and pos: "0 < k" "0 < l"
    and inside: "0 \<le> i" "0 \<le> j" "i + k \<le> int (cwidth cv)" "j + l \<le> int (cheight cv)"
    and uni: "\<forall>col<nat k. \<forall>row<nat l. pixelAt cv (i + int col) (j + int row) = c"
    and bright: "120 < unat (red c) + unat (green c) + unat (blue c)"
      "unat (red c) + unat (green c) + unat (blue c) < 690"
  shows "computeAverageColor_script cv x y w h =
           Inr \<lparr>r = Fin (real (min 255 (unat (red c) + 15))),
                g = Fin (real (min 255 (unat (green c) + 15))),
                b = Fin (real (min 255 (unat (blue c) + 15)))\<rparr>"
proof -
  define data where "data = imageBytes cv i j (nat k) (nat l)"
  have gid: "getImageData cv (Fin (of_int i)) (Fin (of_int j)) (Fin (of_int k)) (Fin (of_int l)) = Inr data"
    unfolding data_def using pos by (rule getImageData_ints)
  have len: "length data = 4 * nat k * nat l" by (simp add: data_def length_imageBytes)
  have lpos: "0 < length data" using pos by (simp add: len)
  have dv: "4 dvd length data" by (simp add: len)
  have le: "length data \<le> 2 ^ 50" unfolding data_def using pos inside(3,4,1,2) by (rule region_length)
  have u: "\<forall>n<length data. data ! n = [red c, green c, blue c, alpha c] ! (n mod 4)"
    unfolding data_def using uni by (rule imageBytes_uniform)
  from sumLoop_script_uniform [OF dv u bright _ le, of 0 0 "(Fin 0, Fin 0, Fin 0, 0)"] lpos
  obtain count where loop: "sumLoop_script data 0 (Fin 0, Fin 0, Fin 0, 0) =
      (Fin (real (count * unat (red c))), Fin (real (count * unat (green c))),
       Fin (real (count * unat (blue c))), count)" and cp: "0 < count"
    by auto
  have guard: "\<not> (Fin (of_int k) \<le> Fin 0 \<or> Fin (of_int l) \<le> Fin 0)"
    using pos by (simp add: le0_int)
  have ten: "Fin 15 = Fin (real 15)" by simp
  note ch = uniform_channel [OF cp unat_byte_le, of 15]
  show ?thesis
    unfolding computeAverageColor_script_def rect prod.case gid sum.case loop Let_def ten
    using guard cp ch by simp
qed

lemma inside_axis:
  assumes "real rx \<le> a" "a + e \<le> real (rx + rw)" "rx + rw \<le> W" "1 \<le> e" "W < 2 ^ 24"
  shows "Math_min (Fin (real W) - Fin (of_int \<lfloor>a\<rfloor>)) (Math_floor (Fin e)) = Fin (of_int \<lfloor>e\<rfloor>)"
    and "Math_max (Fin 0) (Math_floor (Fin a)) = Fin (of_int \<lfloor>a\<rfloor>)"
    and "int rx \<le> \<lfloor>a\<rfloor>" and "\<lfloor>a\<rfloor> + \<lfloor>e\<rfloor> \<le> int (rx + rw)" and "0 < \<lfloor>e\<rfloor>"
proof -
  show rxa: "int rx \<le> \<lfloor>a\<rfloor>" using assms(1) by (simp add: le_floor_iff)
  show sum: "\<lfloor>a\<rfloor> + \<lfloor>e\<rfloor> \<le> int (rx + rw)"
  proof -
    have "\<lfloor>a\<rfloor> + \<lfloor>e\<rfloor> \<le> \<lfloor>a + e\<rfloor>" by (rule le_floor_add)
    also have "\<dots> \<le> \<lfloor>real (rx + rw)\<rfloor>" using assms(2) by (rule floor_mono)
    also have "\<dots> = int (rx + rw)" by (rule floor_of_nat)
    finally show ?thesis .
  qed
  show epos: "0 < \<lfloor>e\<rfloor>" using assms(4) by simp
  have m: "max 0 \<lfloor>a\<rfloor> = \<lfloor>a\<rfloor>" using rxa by simp
  show s: "Math_max (Fin 0) (Math_floor (Fin a)) = Fin (of_int \<lfloor>a\<rfloor>)"
    by (simp only: Math_floor.simps Math_max_0_int m)
  have a0: "0 \<le> \<lfloor>a\<rfloor>" using rxa by linarith
  have "\<not> int W < \<lfloor>a\<rfloor>" using sum epos assms(3) by linarith
  with canvas_minus [OF assms(5) a0]
  have d: "Fin (real W) - Fin (of_int \<lfloor>a\<rfloor>) = Fin (of_int (int W - \<lfloor>a\<rfloor>))"
    by blast
  have mn: "min (int W - \<lfloor>a\<rfloor>) \<lfloor>e\<rfloor> = \<lfloor>e\<rfloor>" using sum assms(3) by simp
  show "Math_min (Fin (real W) - Fin (of_int \<lfloor>a\<rfloor>)) (Math_floor (Fin e)) = Fin (of_int \<lfloor>e\<rfloor>)"
    by (simp only: d Math_floor.simps Math_min_int mn)
qed

lemma region_pixels:
  assumes "rx + rw \<le> cwidth cv" "ry + rh \<le> cheight cv"
    and "\<forall>px py. rx \<le> px \<and> px < rx + rw \<and> ry \<le> py \<and> py < ry + rh \<longrightarrow> cpixel cv px py = c"
    and "int rx \<le> i" "i + k \<le> int (rx + rw)" "int ry \<le> j" "j + l \<le> int (ry + rh)"
  shows "\<forall>col<nat k. \<forall>row<nat l. pixelAt cv (i + int col) (j + int row) = c"
proof (intro allI impI)
  fix col row assume c: "col < nat k" and r: "row < nat l"
  let ?px = "i + int col" and ?py = "j + int row"
  have b: "int rx \<le> ?px" "?px < int (rx + rw)" "int ry \<le> ?py" "?py < int (ry + rh)"
    using assms(4-7) c r by auto
  then have n: "rx \<le> nat ?px" "nat ?px < rx + rw" "ry \<le> nat ?py" "nat ?py < ry + rh"
    by auto
  have "0 \<le> ?px \<and> ?px < int (cwidth cv) \<and> 0 \<le> ?py \<and> ?py < int (cheight cv)"
    using b assms(1,2) by auto
  then have "pixelAt cv ?px ?py = cpixel cv (nat ?px) (nat ?py)"
    by (simp add: pixelAt_def)
  also have "\<dots> = c" using assms(3) n by blast
  finally show "pixelAt cv ?px ?py = c" .
qed

lemma part0_uniform_region:
  fixes x y w h :: real
  assumes region: "rx + rw \<le> cwidth cv" "ry + rh \<le> cheight cv"
    and uniform: "\<forall>px py. rx \<le> px \<and> px < rx + rw \<and> ry \<le> py \<and> py < ry + rh \<longrightarrow> cpixel cv px py = c"
    and inside: "real rx \<le> x" "x + w \<le> real (rx + rw)" "real ry \<le> y" "y + h \<le> real (ry + rh)"
    and wide: "1 \<le> w" and tall: "1 \<le> h"
  shows "computeAverageColor_part0 cv (Fin x) (Fin y) (Fin w) (Fin h) =
              Inr \<lparr>r = Fin (real (min 255 (unat (red c) + 10))),
                   g = Fin (real (min 255 (unat (green c) + 10))),
                   b = Fin (real (min 255 (unat (blue c) + 10)))\<rparr>"
proof -
  note ax = inside_axis [OF inside(1,2) region(1) wide cwidth_bound(1)]
  note ay = inside_axis [OF inside(3,4) region(2) tall cwidth_bound(2)]
  have rect: "sampleRect_part0 cv (Fin x) (Fin y) (Fin w) (Fin h)
      = (Fin (of_int \<lfloor>x\<rfloor>), Fin (of_int \<lfloor>y\<rfloor>), Fin (of_int \<lfloor>w\<rfloor>), Fin (of_int \<lfloor>h\<rfloor>))"
    by (simp only: sampleRect_part0_def Let_def ax(1,2) ay(1,2))
  have in1: "0 \<le> \<lfloor>x\<rfloor>" "0 \<le> \<lfloor>y\<rfloor>" using ax(3) ay(3) by linarith+
  have in2: "\<lfloor>x\<rfloor> + \<lfloor>w\<rfloor> \<le> int (cwidth cv)" "\<lfloor>y\<rfloor> + \<lfloor>h\<rfloor> \<le> int (cheight cv)"
    using ax(4) ay(4) region by linarith+
  show ?thesis
    using rect ax(5) ay(5) in1 in2
  proof (rule part0_sample_uniform)
    show "\<forall>col<nat \<lfloor>w\<rfloor>. \<forall>row<nat \<lfloor>h\<rfloor>. pixelAt cv (\<lfloor>x\<rfloor> + int col) (\<lfloor>y\<rfloor> + int row) = c"
      using region uniform ax(3,4) ay(3,4) by (rule region_pixels)
  qed
qed

text \<open>
  The asset script keeps \<open>h * 0.4\<close> of the height, a rounded product with the double
  nearest to 0.4. When 40% of the height is at least 1 the kept height is at least 1 and
  less than \<open>h\<close>.
\<close>

lemma kept_height:
  assumes "1 \<le> h * 0.4" "h < 2 ^ 24"
  shows "\<exists>e. Fin h * double 0.4 = Fin e \<and> 1 \<le> e \<and> e \<le> h"
proof -
  define c04 :: real where "c04 = 3602879701896397 / 9007199254740992"
  have c: "2 / 5 \<le> c04" "c04 \<le> 1 / 2" by (simp_all add: c04_def)
  have h: "5 / 2 \<le> h" using assms(1) by simp
  have lo: "of_int 1 \<le> h * c04"
  proof -
    have "1 \<le> h * (2 / 5)" using assms(1) by simp
    also have "\<dots> \<le> h * c04" using c(1) h by (intro mult_left_mono) simp_all
    finally show ?thesis by simp
  qed
  define N where "N = \<lceil>h * c04\<rceil>"
  have hi: "h * c04 \<le> of_int N" unfolding N_def by linarith
  have "h * c04 \<le> h * (1 / 2)" using c(2) h by (intro mult_left_mono) simp_all
  then have "of_int N < h * (1 / 2) + 1" unfolding N_def by linarith
  then have Nh: "of_int N < h" using h by simp
  then have "(of_int N :: real) < 2 ^ 24" using assms(2) by simp
  then have "N < 2 ^ 24" by (metis of_int_less_iff of_int_numeral of_int_power)
  then have "N < 2 ^ 53" by simp
  from double_between_int [OF _ this lo hi]
  obtain e where e: "double (h * c04) = Fin e" "1 \<le> e" "e \<le> of_int N" by auto
  have "Fin h * double 0.4 = Fin e" unfolding literals using e(1) by (simp add: c04_def)
  then show ?thesis using e Nh by (intro exI [of _ e]) simp
qed

text \<open>
  The rounding of the product can reach the next integer: of a height of 7.499999999999999
  the asset script keeps 3 rows, where 40% of the height is less than 3.
\<close>

lemma kept_height_rounds:
  "Math_floor (double 7.499999999999999 * double 0.4) = Fin 3 \<and>
   \<lfloor>7.499999999999999 * 0.4 :: real\<rfloor> = 2"
  by (simp add: double_eval)

lemma script_uniform_region:
  fixes x y w h :: real
  assumes region: "rx + rw \<le> cwidth cv" "ry + rh \<le> cheight cv"
    and uniform: "\<forall>px py. rx \<le> px \<and> px < rx + rw \<and> ry \<le> py \<and> py < ry + rh \<longrightarrow> cpixel cv px py = c"
    and inside: "real rx \<le> x" "x + w \<le> real (rx + rw)" "real ry \<le> y" "y + h \<le> real (ry + rh)"
    and wide: "1 \<le> w" and tall: "1 \<le> h * 0.4"
    and bright: "40 < real (unat (red c) + unat (green c) + unat (blue c)) / 3"
      "real (unat (red c) + unat (green c) + unat (blue c)) / 3 < 230"
  shows "computeAverageColor_script cv (Fin x) (Fin y) (Fin w) (Fin h) =
              Inr \<lparr>r = Fin (real (min 255 (unat (red c) + 15))),
                   g = Fin (real (min 255 (unat (green c) + 15))),
                   b = Fin (real (min 255 (unat (blue c) + 15)))\<rparr>"
proof -
  note ax = inside_axis [OF inside(1,2) region(1) wide cwidth_bound(1)]
  have "h \<le> real (ry + rh)" using inside(3,4) by linarith
  also have "\<dots> \<le> real (cheight cv)" using region(2) by simp
  also have "\<dots> < 2 ^ 24" using cwidth_bound(2) [of cv] by (metis of_nat_less_iff of_nat_numeral of_nat_power)
  finally have "h < 2 ^ 24" .
  from kept_height [OF tall this] obtain e where e: "Fin h * double 0.4 = Fin e" "1 \<le> e" "e \<le> h"
    by blast
  have in4: "y + e \<le> real (ry + rh)" using inside(4) e(3) by simp
  note ay = inside_axis [OF inside(3) in4 region(2) e(2) cwidth_bound(2)]
  have rect: "sampleRect_script cv (Fin x) (Fin y) (Fin w) (Fin h)
      = (Fin (of_int \<lfloor>x\<rfloor>), Fin (of_int \<lfloor>y\<rfloor>), Fin (of_int \<lfloor>w\<rfloor>), Fin (of_int \<lfloor>e\<rfloor>))"
    by (simp only: sampleRect_script_def Let_def e(1) ax(1,2) ay(1,2))
  define n where "n = unat (red c) + unat (green c) + unat (blue c)"
  from bright have "40 < real n / 3" "real n / 3 < 230" unfolding n_def by blast+
  then have "120 < n" "n < 690" by simp_all
  then have bright': "120 < unat (red c) + unat (green c) + unat (blue c)"
      "unat (red c) + unat (green c) + unat (blue c) < 690"
    unfolding n_def .
  have in1: "0 \<le> \<lfloor>x\<rfloor>" "0 \<le> \<lfloor>y\<rfloor>" using ax(3) ay(3) by linarith+
  have in2: "\<lfloor>x\<rfloor> + \<lfloor>w\<rfloor> \<le> int (cwidth cv)" "\<lfloor>y\<rfloor> + \<lfloor>e\<rfloor> \<le> int (cheight cv)"
    using ax(4) ay(4) region by linarith+
  show ?thesis
    using rect ax(5) ay(5) in1 in2
  proof (rule script_sample_uniform)
    show "\<forall>col<nat \<lfloor>w\<rfloor>. \<forall>row<nat \<lfloor>e\<rfloor>. pixelAt cv (\<lfloor>x\<rfloor> + int col) (\<lfloor>y\<rfloor> + int row) = c"
      using region uniform ax(3,4) ay(3,4) by (rule region_pixels)
  qed (rule bright')+
qed

section \<open>The placement formulas in the code\<close>

lemma times_jsnum_commute: "(u::jsnum) * v = v * u"
  by (cases u; cases v) (simp_all add: mult.commute)

lemma drawFallback_part0_spec: "drawFallback_part0 paint inp cv =
   sampleAndDraw_part0 paint cv
     (js_fallbackRect (Fin (real (cwidth cv))) (Fin (real (cheight cv))) (intensityValue inp) None None)"
  by (simp add: drawFallback_part0_def js_fallbackRect_def sampleAndDraw_part0_def Let_def
      times_jsnum_commute [of "double (13 / 20)"])

lemma drawFallback_script_spec: "drawFallback_script paint inp cv =
   sampleAndDraw_script paint inp cv
     (js_fallbackRect (Fin (real (cwidth cv))) (Fin (real (cheight cv))) (intensityValue inp)
        (Some (widthFactorValue inp)) (Some (offsetValue inp)))"
  by (simp add: drawFallback_script_def js_fallbackRect_def sampleAndDraw_script_def Let_def
      times_jsnum_commute [of "double (13 / 20)"])

lemma detectedPath_part0_spec: "detectedPath_part0 paint inp img lms cv =
   sampleAndDraw_part0 paint cv
     (js_detectedRect (js_boundingBox (Fin (real (img_width img))) (Fin (real (img_height img))) lms)
        (intensityValue inp) None None)"
  by (simp add: detectedPath_part0_def js_detectedRect_def js_boundingBox_def sampleAndDraw_part0_def
      Let_def times_jsnum_commute [of "double (2 / 5)"])

lemma detectedPath_script_spec: "detectedPath_script paint atan2 inp img lms cv =
   sampleAndRotate_script paint atan2 inp img lms cv
     (js_detectedRect (js_boundingBox (Fin (real (img_width img))) (Fin (real (img_height img))) lms)
        (intensityValue inp) (Some (widthFactorValue inp)) (Some (offsetValue inp)))"
  by (simp add: detectedPath_script_def js_detectedRect_def js_boundingBox_def
      sampleAndRotate_script_def Let_def times_jsnum_commute [of "double (2 / 5)"])

text \<open>
  \<open>Math.min(...xs)\<close> and \<open>Math.max(...xs)\<close> of finite numbers, at least one, are the least
  and the greatest of them.
\<close>

lemma Math_min_real: "Math_min (Fin u) (Fin v) = Fin (min u v)"
  by (simp add: Math_min_def min_def)

lemma Math_max_real: "Math_max (Fin u) (Fin v) = Fin (max u v)"
  by (simp add: Math_max_def max_def)

lemma Math_min_list_Fin: "xs \<noteq> [] \<Longrightarrow> Math_min_list (map Fin xs) = Fin (Min (set xs))"
proof (induction xs rule: list_nonempty_induct)
  case (single x)
  then show ?case by (simp add: Math_min_list_def Math_min_def)
next
  case (cons x xs)
  have "Math_min_list (map Fin (x # xs)) = Math_min (Fin x) (Math_min_list (map Fin xs))"
    by (simp add: Math_min_list_def)
  also have "\<dots> = Fin (min x (Min (set xs)))"
    unfolding cons.IH by (rule Math_min_real)
  also have "min x (Min (set xs)) = Min (set (x # xs))"
    using cons.hyps by simp
  finally show ?case .
qed

lemma Math_max_list_Fin: "xs \<noteq> [] \<Longrightarrow> Math_max_list (map Fin xs) = Fin (Max (set xs))"
proof (induction xs rule: list_nonempty_induct)
  case (single x)
  then show ?case by (simp add: Math_max_list_def Math_max_def)
next
  case (cons x xs)
  have "Math_max_list (map Fin (x # xs)) = Math_max (Fin x) (Math_max_list (map Fin xs))"
    by (simp add: Math_max_list_def)
  also have "\<dots> = Fin (max x (Max (set xs)))"
    unfolding cons.IH by (rule Math_max_real)
  also have "max x (Max (set xs)) = Max (set (x # xs))"
    using cons.hyps by simp
  finally show ?case .
qed

lemma js_boundingBox_finite:
  assumes "map (\<lambda>p. ptx p * W) lms = map Fin pxs" "map (\<lambda>p. pty p * H) lms = map Fin pys"
    and "lms \<noteq> []"
  shows "js_boundingBox W H lms =
     (Fin (Min (set pxs)), Fin (Max (set pxs)), Fin (Min (set pys)), Fin (Max (set pys)))"
proof -
  have "length pxs = length lms" "length pys = length lms"
    using assms(1,2) by (metis length_map)+
  then have ne: "pxs \<noteq> []" "pys \<noteq> []" using assms(3) by auto
  show ?thesis
    unfolding js_boundingBox_def assms(1,2) Math_min_list_Fin [OF ne(1)] Math_max_list_Fin [OF ne(1)]
      Math_min_list_Fin [OF ne(2)] Math_max_list_Fin [OF ne(2)] ..
qed

lemma drawTintedChin_indep:
  "drawTintedChin paint (inp\<lparr>faceMesh := d\<rparr>) = drawTintedChin paint inp"
  by (simp add: drawTintedChin_def fun_eq_iff)

lemma drawFallback_indep: "drawFallback_part0 paint (inp\<lparr>faceMesh := d\<rparr>) cv = drawFallback_part0 paint inp cv"
  "drawFallback_script paint (inp\<lparr>faceMesh := d\<rparr>) cv = drawFallback_script paint inp cv"
  by (simp_all add: drawFallback_part0_def drawFallback_script_def drawTintedChin_indep Let_def
        cong: sum.case_cong)

section \<open>The grey 400 by 300 scenario\<close>

lemma gray_fallback_color:
  assumes "cwidth cv = 400" "cheight cv = 300"
    and "\<forall>px py. px < 400 \<and> py < 300 \<longrightarrow> cpixel cv px py = gray128"
  shows "computeAverageColor_part0 cv (Fin 120) (Fin 195) (Fin 160) (Fin 60)
           = Inr \<lparr>r = Fin 138, g = Fin 138, b = Fin 138\<rparr>"
proof -
  have "computeAverageColor_part0 cv (Fin 120) (Fin 195) (Fin 160) (Fin 60) =
              Inr \<lparr>r = Fin (real (min 255 (unat (red gray128) + 10))),
                   g = Fin (real (min 255 (unat (green gray128) + 10))),
                   b = Fin (real (min 255 (unat (blue gray128) + 10)))\<rparr>"
    using assms by (intro part0_uniform_region [where rx = 0 and rw = 400 and ry = 0 and rh = 300]) simp_all
  then show ?thesis by (simp add: gray128_def)
qed

lemma gray_fallback_rect:
  "js_fallbackRect (Fin 400) (Fin 300) (Fin 0.5) None None = (Fin 120, Fin 195, Fin 160, Fin 60)"
  by (simp add: js_fallbackRect_def Let_def minus_jsnum_def double_eval)

lemma gray_fallback_draw:
  assumes "cwidth cv = 400" "cheight cv = 300"
    and "\<forall>px py. px < 400 \<and> py < 300 \<longrightarrow> cpixel cv px py = gray128"
  shows "drawFallback_part0 paint (inp\<lparr>intensityValue := Fin 0.5\<rparr>) cv =
     drawBallsChin paint cv (Fin 120) (Fin 195) (Fin 160) (Fin 60)
       (RGBA (Fin 138) (Fin 138) (Fin 138) (Fin 1)) (RGBA (Fin 0) (Fin 0) (Fin 0) (Fin 1))"
  using gray_fallback_rect
  by (simp add: drawFallback_part0_spec sampleAndDraw_part0_def assms(1,2)
      gray_fallback_color [OF assms])

lemma chin_returns:
  "drawBallsChin paint cv (Fin 120) (Fin 195) (Fin 160) (Fin 60) fill outline =
     Returned (paint (StrokeArc (Fin 200) (Fin 216) (Fin 40) Math_PI (Fin 0) outline)
       (paint (StrokeLine (Fin 200) (Fin 216) (Fin 200) (Fin 243) outline)
         (paint (FillStrokeEllipse (Fin 240) (Fin 231) (Fin 40) (Fin 24) fill outline)
           (paint (FillStrokeEllipse (Fin 160) (Fin 231) (Fin 40) (Fin 24) fill outline) cv))))"
  by (simp add: drawBallsChin_def ellipseThrows_def arcThrows_def Let_def double_eval)

lemma unat_gray_sides [simp]: "unat (400 :: 24 word) = 400" "unat (300 :: 24 word) = 300"
  by simp_all

lemma redraw_gray:
  "redrawOriginal (uniformImage 400 300 gray128) (uniformCanvas 400 300 gray128) = Returned grayRedrawn"
  by (simp add: redrawOriginal_def uniformImage_def grayRedrawn_def cong: if_cong)

lemma grayRedrawn_uniform:
  "cwidth grayRedrawn = 400" "cheight grayRedrawn = 300"
  "\<forall>px py. px < 400 \<and> py < 300 \<longrightarrow> cpixel grayRedrawn px py = gray128"
  by (simp_all add: grayRedrawn_def)

lemma gray_fallback_returns:
  assumes "cwidth cv = 400" "cheight cv = 300"
    and "\<forall>px py. px < 400 \<and> py < 300 \<longrightarrow> cpixel cv px py = gray128"
  shows "drawFallback_part0 paint (inp\<lparr>intensityValue := Fin (1 / 2)\<rparr>) cv = Returned (grayChin paint cv)"
  using gray_fallback_draw [OF assms, where paint = paint and inp = inp]
  by (simp add: chin_returns grayChin_def)

lemma gray_run_part0:
  assumes "d = Results None \<or> d = Rejects"
  shows "generateClick_part0 paint
           (inp\<lparr>intensityValue := Fin (1 / 2), faceMeshLoads := True, faceMesh := d\<rparr>) grayPage
         = Finished (grayPage\<lparr>cnv := grayChin paint grayRedrawn, generateDisabled := False,
                               downloadDisabled := False\<rparr>)"
proof -
  have indep: "drawFallback_part0 paint (i\<lparr>intensityValue := v, faceMeshLoads := True, faceMesh := d'\<rparr>) c
       = drawFallback_part0 paint (i\<lparr>intensityValue := v\<rparr>) c" for i d' c v
    by (simp add: drawFallback_part0_def)
  note f = gray_fallback_returns [OF grayRedrawn_uniform, where paint = paint and inp = inp]
  from assms show ?thesis
    by (auto simp: generateClick_part0_def grayPage_def redraw_gray tryCatch_part0_def
        tryBlock_part0_def indep f Let_def)
qed

lemma drawTintedChin_not_ready:
  "\<not> img_complete (maskImg inp) \<or> \<not> img_complete (outlineImg inp) \<or> naturalWidth (maskImg inp) = 0
     \<Longrightarrow> drawTintedChin paint inp cv x y w h fill = Returned cv"
  by (simp add: drawTintedChin_def)

section \<open>Runs that do not finish\<close>

text \<open>
  The statements that enable the controls follow the \<open>try\<close> and \<open>catch\<close> blocks. A
  run that ends by an exception, or that waits for the detector for ever, leaves both
  controls disabled.
\<close>

lemma controls_disabled_unless_finished:
  assumes "generateClick_part0 paint inp s = Escaped e s' \<or> generateClick_part0 paint inp s = Pending s' \<or>
           generateClick_script paint atan2 inp s = Escaped e s' \<or>
           generateClick_script paint atan2 inp s = Pending s'"
  shows "generateDisabled s' \<and> downloadDisabled s'"
  using assms
  by (auto simp: generateClick_part0_def generateClick_script_def Let_def
      split: option.splits completion.splits detection.splits if_splits)

text \<open>
  With a mask that has loaded and an outline that has failed to load, the fallback of the
  asset script throws whatever the slider values are: the sampler throws, or it returns
  and the drawing throws. The \<open>catch\<close> block runs the same fallback, so a run whose
  detection finds no face or throws ends by an exception.
\<close>

lemma drawFallback_script_broken_outline:
  assumes mask: "istate (maskImg inp) = Available" "iwidth (maskImg inp) \<noteq> 0"
    and outline: "istate (outlineImg inp) = Broken"
  shows "\<exists>e. drawFallback_script paint inp cv = Thrown e cv"
proof -
  define w where "w = Fin (real (cwidth cv)) * (double 0.3 + double 0.2 * intensityValue inp) * widthFactorValue inp"
  define h where "h = Fin (real (cheight cv)) * (double 0.15 + double 0.1 * intensityValue inp)"
  define x where "x = Fin (real (cwidth cv)) / Fin 2 - w / Fin 2"
  define y where "y = Fin (real (cheight cv)) * double 0.65 + offsetValue inp * Fin (real (cheight cv))"
  have draw: "drawTintedChin paint inp cv x y w h fill = Thrown InvalidStateError cv" for fill
    using mask outline
    by (simp add: drawTintedChin_def img_complete_def naturalWidth_def offscreenChin_def)
  have "drawFallback_script paint inp cv =
      (case computeAverageColor_script cv x y w h of
         Inl e \<Rightarrow> Thrown e cv
       | Inr c \<Rightarrow> drawTintedChin paint inp cv x y w h (RGBA (r c) (g c) (b c) (Fin 1)))"
    unfolding drawFallback_script_def Let_def x_def y_def w_def h_def ..
  then show ?thesis
    by (cases "computeAverageColor_script cv x y w h") (simp_all add: draw)
qed

lemma broken_outline_run_escapes:
  assumes img: "uploadedImage s = Some img" "istate img = Available"
    and mask: "istate (maskImg inp) = Available" "iwidth (maskImg inp) \<noteq> 0"
    and outline: "istate (outlineImg inp) = Broken"
    and det: "faceMeshLoads inp" "faceMesh inp = Rejects \<or> faceMesh inp = Results None"
  shows "\<exists>e cv. generateClick_script paint atan2 inp s =
           Escaped e (s\<lparr>generateDisabled := True, downloadDisabled := True, cnv := cv\<rparr>)"
proof -
  obtain cv where r: "redrawOriginal img (cnv s) = Returned cv"
    using img(2) by (simp add: redrawOriginal_def)
  from drawFallback_script_broken_outline [OF mask outline, of paint cv]
  obtain e where fb: "drawFallback_script paint inp cv = Thrown e cv" by blast
  have "generateClick_script paint atan2 inp s =
           Escaped e (s\<lparr>generateDisabled := True, downloadDisabled := True, cnv := cv\<rparr>)"
    using det img(1) r
    by (auto simp: generateClick_script_def Let_def tryCatch_script_def tryBlock_script_def fb)
  then show ?thesis by blast
qed

text \<open>
  On the right and at the bottom the clamping works as a clamp: a rectangle whose left
  edge is at or beyond the right edge of the bitmap, or whose top edge is at or beyond
  its bottom edge, makes the guard true, and both scripts return their fixed default
  colour without reaching \<open>getImageData\<close>.
\<close>

lemma outside_right_bottom_default:
  assumes "real (cwidth cv) \<le> x \<or> real (cheight cv) \<le> y"
  shows "computeAverageColor_part0 cv (Fin x) (Fin y) (Fin w) (Fin h) = Inr default_part0 \<and>
         computeAverageColor_script cv (Fin x) (Fin y) (Fin w) (Fin h) = Inr default_script \<and>
         (case sampleRect_part0 cv (Fin x) (Fin y) (Fin w) (Fin h) of (sx, sy, sw, sh) \<Rightarrow> sw \<le> Fin 0 \<or> sh \<le> Fin 0) \<and>
         (case sampleRect_script cv (Fin x) (Fin y) (Fin w) (Fin h) of (sx, sy, sw, sh) \<Rightarrow> sw \<le> Fin 0 \<or> sh \<le> Fin 0)"
proof -
  have ax: "Math_min (Fin (real W) - Math_max (Fin 0) (Math_floor (Fin a))) (Math_floor e) \<le> Fin 0"
    if "real W \<le> a" "W < 2 ^ 24" "e \<noteq> NaN" for W a e
  proof -
    have wa: "int W \<le> \<lfloor>a\<rfloor>" using that(1) by (simp add: le_floor_iff)
    then have m: "max 0 \<lfloor>a\<rfloor> = \<lfloor>a\<rfloor>" "0 \<le> \<lfloor>a\<rfloor>" by linarith+
    have u: "Fin (real W) - Fin (of_int \<lfloor>a\<rfloor>) \<le> Fin 0"
      using canvas_minus [OF that(2) m(2)] wa by auto
    then have "Fin (real W) - Fin (of_int \<lfloor>a\<rfloor>) \<noteq> NaN" by auto
    with Math_min_nonpos [OF u, of "Math_floor e"] that(3)
    show ?thesis
      unfolding Math_floor.simps Math_max_0_int m by simp
  qed
  have g0: "(case sampleRect_part0 cv (Fin x) (Fin y) (Fin w) (Fin h) of (sx, sy, sw, sh) \<Rightarrow> sw \<le> Fin 0 \<or> sh \<le> Fin 0)"
    using assms ax [of "cwidth cv" x "Fin w"] ax [of "cheight cv" y "Fin h"] cwidth_bound [of cv]
    by (auto simp: sampleRect_part0_def Let_def)
  have g1: "(case sampleRect_script cv (Fin x) (Fin y) (Fin w) (Fin h) of (sx, sy, sw, sh) \<Rightarrow> sw \<le> Fin 0 \<or> sh \<le> Fin 0)"
    using assms ax [of "cwidth cv" x "Fin w"] ax [of "cheight cv" y "Fin h * double 0.4"] cwidth_bound [of cv]
    by (auto simp: sampleRect_script_def Let_def)
  from g0 have "computeAverageColor_part0 cv (Fin x) (Fin y) (Fin w) (Fin h) = Inr default_part0"
    by (auto simp: computeAverageColor_part0_def split: prod.splits)
  moreover from g1 have "computeAverageColor_script cv (Fin x) (Fin y) (Fin w) (Fin h) = Inr default_script"
    by (auto simp: computeAverageColor_script_def split: prod.splits)
  ultimately show ?thesis using g0 g1 by blast
qed

section \<open>Claims about the sampler\<close>

text \<open>
  C1, at an input where the code departs from it. The rectangle from \<open>x = -5\<close> of width
  2 lies wholly off the left edge of a 4 by 3 bitmap. Only the origin is clamped, to 0;
  the width is not reduced by the part that was cut off, so the guard is false, and both
  scripts read the pixels at the left edge and return their brightened average instead of
  the default colour.
\<close>

theorem outside_left_sampled:
  "(-5::real) + 2 \<le> 0 \<and>
   sampleRect_part0 (uniformCanvas 4 3 gray128) (Fin (-5)) (Fin 0) (Fin 2) (Fin 3)
     = (Fin 0, Fin 0, Fin 2, Fin 3) \<and>
   computeAverageColor_part0 (uniformCanvas 4 3 gray128) (Fin (-5)) (Fin 0) (Fin 2) (Fin 3)
     = Inr \<lparr>r = Fin 138, g = Fin 138, b = Fin 138\<rparr> \<and>
   default_part0 \<noteq> \<lparr>r = Fin 138, g = Fin 138, b = Fin 138\<rparr> \<and>
   sampleRect_script (uniformCanvas 4 3 gray128) (Fin (-5)) (Fin 0) (Fin 2) (Fin 3)
     = (Fin 0, Fin 0, Fin 2, Fin 1) \<and>
   computeAverageColor_script (uniformCanvas 4 3 gray128) (Fin (-5)) (Fin 0) (Fin 2) (Fin 3)
     = Inr \<lparr>r = Fin 143, g = Fin 143, b = Fin 143\<rparr> \<and>
   default_script \<noteq> \<lparr>r = Fin 143, g = Fin 143, b = Fin 143\<rparr>"
  by (simp add: eval_defs)

text \<open>
  C2. In both scripts, for every input rectangle: whenever the guard is passed and
  \<open>getImageData\<close> delivers pixel data, the clamped rectangle consists of integers with
  \<open>sx \<ge> 0\<close>, \<open>sy \<ge> 0\<close>, \<open>sx + sw \<le> canvas.width\<close> and \<open>sy + sh \<le> canvas.height\<close>, and
  the data are the bytes of exactly that rectangle, so no pixel outside the bitmap is read.
  Pixel data is delivered for every rectangle without a \<open>NaN\<close> component that passes the
  guard; a rectangle with a \<open>NaN\<close> component that passes the guard is rejected by
  \<open>getImageData\<close> with an exception before any pixel is read.
\<close>

theorem sample_rect_in_bounds:
  assumes "sampleRect_part0 cv x y w h = (sx, sy, sw, sh) \<or> sampleRect_script cv x y w h = (sx, sy, sw, sh)"
    and "\<not> (sw \<le> Fin 0 \<or> sh \<le> Fin 0)"
  shows "(\<forall>data. getImageData cv sx sy sw sh = Inr data \<longrightarrow>
            (\<exists>i j k l. sx = Fin (of_int i) \<and> sy = Fin (of_int j) \<and> sw = Fin (of_int k) \<and> sh = Fin (of_int l) \<and>
               0 \<le> i \<and> 0 \<le> j \<and> 0 < k \<and> 0 < l \<and>
               i + k \<le> int (cwidth cv) \<and> j + l \<le> int (cheight cv) \<and>
               data = imageBytes cv i j (nat k) (nat l))) \<and>
         (x \<noteq> NaN \<and> y \<noteq> NaN \<and> w \<noteq> NaN \<and> h \<noteq> NaN \<longrightarrow>
            (\<exists>data. getImageData cv sx sy sw sh = Inr data)) \<and>
         (x = NaN \<or> y = NaN \<or> w = NaN \<or> h = NaN \<longrightarrow> getImageData cv sx sy sw sh = Inl TypeError)"
proof -
  have "\<exists>h'. (h' = NaN) = (h = NaN) \<and> sx = Math_max (Fin 0) (Math_floor x) \<and>
          sy = Math_max (Fin 0) (Math_floor y) \<and>
          sw = Math_min (Fin (real (cwidth cv)) - Math_max (Fin 0) (Math_floor x)) (Math_floor w) \<and>
          sh = Math_min (Fin (real (cheight cv)) - Math_max (Fin 0) (Math_floor y)) (Math_floor h')"
    using assms(1)
  proof
    assume "sampleRect_part0 cv x y w h = (sx, sy, sw, sh)"
    then show ?thesis
      by (intro exI [of _ h]) (auto simp: sampleRect_part0_def Let_def)
  next
    assume "sampleRect_script cv x y w h = (sx, sy, sw, sh)"
    then show ?thesis
      by (intro exI [of _ "h * double 0.4"]) (auto simp: sampleRect_script_def Let_def)
  qed
  then obtain h' where h': "(h' = NaN) = (h = NaN)"
    and s: "sx = Math_max (Fin 0) (Math_floor x)" "sy = Math_max (Fin 0) (Math_floor y)"
      "sw = Math_min (Fin (real (cwidth cv)) - Math_max (Fin 0) (Math_floor x)) (Math_floor w)"
      "sh = Math_min (Fin (real (cheight cv)) - Math_max (Fin 0) (Math_floor y)) (Math_floor h')"
    by blast
  from rect_cases [OF s assms(2)] show ?thesis
  proof
    assume "(x = NaN \<or> y = NaN \<or> w = NaN \<or> h' = NaN) \<and> (sx = NaN \<or> sy = NaN \<or> sw = NaN \<or> sh = NaN)"
    then have n: "x = NaN \<or> y = NaN \<or> w = NaN \<or> h = NaN"
      and "getImageData cv sx sy sw sh = Inl TypeError"
      using h' getImageData_NaN [of sx sy sw sh cv] by blast+
    then show ?thesis by auto
  next
    assume "x \<noteq> NaN \<and> y \<noteq> NaN \<and> w \<noteq> NaN \<and> h' \<noteq> NaN \<and>
         (\<exists>i j k l. sx = Fin (of_int i) \<and> sy = Fin (of_int j) \<and> sw = Fin (of_int k) \<and> sh = Fin (of_int l) \<and>
            0 \<le> i \<and> 0 \<le> j \<and> 0 < k \<and> 0 < l \<and> i + k \<le> int (cwidth cv) \<and> j + l \<le> int (cheight cv))"
    then obtain i j k l where nn: "x \<noteq> NaN" "y \<noteq> NaN" "w \<noteq> NaN" "h \<noteq> NaN"
      and ij: "sx = Fin (of_int i)" "sy = Fin (of_int j)" "sw = Fin (of_int k)" "sh = Fin (of_int l)"
        "0 \<le> i" "0 \<le> j" "0 < k" "0 < l" "i + k \<le> int (cwidth cv)" "j + l \<le> int (cheight cv)"
      using h' by blast
    have gid: "getImageData cv sx sy sw sh = Inr (imageBytes cv i j (nat k) (nat l))"
      unfolding ij(1-4) using ij(7,8) by (rule getImageData_ints)
    have "\<exists>i j k l. sx = Fin (of_int i) \<and> sy = Fin (of_int j) \<and> sw = Fin (of_int k) \<and> sh = Fin (of_int l) \<and>
               0 \<le> i \<and> 0 \<le> j \<and> 0 < k \<and> 0 < l \<and>
               i + k \<le> int (cwidth cv) \<and> j + l \<le> int (cheight cv) \<and>
               data = imageBytes cv i j (nat k) (nat l)"
      if "getImageData cv sx sy sw sh = Inr data" for data
      using that gid ij by (intro exI [of _ i] exI [of _ j] exI [of _ k] exI [of _ l]) simp
    then show ?thesis using nn gid by blast
  qed
qed

text \<open>
  An instance: the rectangle from \<open>x = -5\<close> of width 2 and height 7 on a 4 by 3 bitmap is
  clamped to two columns and the two rows below the first.
\<close>

theorem sample_rect_in_bounds_witness:
  "sampleRect_part0 (uniformCanvas 4 3 gray128) (Fin (-5)) (Fin 1) (Fin 2) (Fin 7) = (Fin 0, Fin 1, Fin 2, Fin 2) \<and>
   \<not> (Fin 2 \<le> Fin 0 \<or> Fin 2 \<le> Fin 0) \<and>
   getImageData (uniformCanvas 4 3 gray128) (Fin 0) (Fin 1) (Fin 2) (Fin 2)
     = Inr (imageBytes (uniformCanvas 4 3 gray128) 0 1 2 2) \<and>
   (\<exists>i j k l. Fin 0 = Fin (of_int i) \<and> Fin 1 = Fin (of_int j) \<and> Fin 2 = Fin (of_int k) \<and> Fin 2 = Fin (of_int l) \<and>
           0 \<le> i \<and> 0 \<le> j \<and> 0 < k \<and> 0 < l \<and>
           i + k \<le> int (cwidth (uniformCanvas 4 3 gray128)) \<and> j + l \<le> int (cheight (uniformCanvas 4 3 gray128)) \<and>
           imageBytes (uniformCanvas 4 3 gray128) 0 1 2 2 = imageBytes (uniformCanvas 4 3 gray128) i j (nat k) (nat l))"
proof -
  have 1: "sampleRect_part0 (uniformCanvas 4 3 gray128) (Fin (-5)) (Fin 1) (Fin 2) (Fin 7) = (Fin 0, Fin 1, Fin 2, Fin 2)"
    by (simp add: eval_defs)
  have 2: "\<not> (Fin 2 \<le> Fin 0 \<or> Fin 2 \<le> Fin 0)" by simp
  have 3: "getImageData (uniformCanvas 4 3 gray128) (Fin 0) (Fin 1) (Fin 2) (Fin 2)
     = Inr (imageBytes (uniformCanvas 4 3 gray128) 0 1 2 2)"
    by (simp add: getImageData_def)
  show ?thesis
    using sample_rect_in_bounds [OF disjI1 [OF 1] 2] 1 2 3 by blast
qed

text \<open>
  C8, as amended. For every bitmap and every input rectangle with no \<open>NaN\<close> component,
  both scripts return a colour, and each of its channels is an integer from 0 to 255; this
  covers the brightness filter rejecting every sampled pixel. For an input rectangle with a
  \<open>NaN\<close> component, each script returns its default colour when its guard holds, and
  otherwise its call of \<open>getImageData\<close> throws.
\<close>

theorem computeAverageColor_total:
  "(x \<noteq> NaN \<and> y \<noteq> NaN \<and> w \<noteq> NaN \<and> h \<noteq> NaN \<longrightarrow>
      (\<exists>c. computeAverageColor_part0 cv x y w h = Inr c \<and>
           isIntIn 0 255 (r c) \<and> isIntIn 0 255 (g c) \<and> isIntIn 0 255 (b c)) \<and>
      (\<exists>c. computeAverageColor_script cv x y w h = Inr c \<and>
           isIntIn 0 255 (r c) \<and> isIntIn 0 255 (g c) \<and> isIntIn 0 255 (b c))) \<and>
   (x = NaN \<or> y = NaN \<or> w = NaN \<or> h = NaN \<longrightarrow>
      (case sampleRect_part0 cv x y w h of (sx, sy, sw, sh) \<Rightarrow>
         if sw \<le> Fin 0 \<or> sh \<le> Fin 0 then computeAverageColor_part0 cv x y w h = Inr default_part0
         else computeAverageColor_part0 cv x y w h = Inl TypeError) \<and>
      (case sampleRect_script cv x y w h of (sx, sy, sw, sh) \<Rightarrow>
         if sw \<le> Fin 0 \<or> sh \<le> Fin 0 then computeAverageColor_script cv x y w h = Inr default_script
         else computeAverageColor_script cv x y w h = Inl TypeError))"
proof -
  obtain sx sy sw sh where p: "sampleRect_part0 cv x y w h = (sx, sy, sw, sh)"
    by (cases "sampleRect_part0 cv x y w h") auto
  obtain sx' sy' sw' sh' where s: "sampleRect_script cv x y w h = (sx', sy', sw', sh')"
    by (cases "sampleRect_script cv x y w h") auto
  show ?thesis
    using part0_outcome [OF p] script_outcome [OF s] unfolding p s prod.case by auto
qed

theorem computeAverageColor_total_witness:
  "Fin 1 \<noteq> NaN \<and> PosInf \<noteq> NaN \<and>
   (\<exists>c. computeAverageColor_part0 (uniformCanvas 4 3 gray128) (Fin 1) (Fin 1) PosInf (Fin 1) = Inr c \<and>
        isIntIn 0 255 (r c) \<and> isIntIn 0 255 (g c) \<and> isIntIn 0 255 (b c)) \<and>
   (\<exists>c. computeAverageColor_script (uniformCanvas 4 3 gray128) (Fin 1) (Fin 1) PosInf (Fin 1) = Inr c \<and>
        isIntIn 0 255 (r c) \<and> isIntIn 0 255 (g c) \<and> isIntIn 0 255 (b c)) \<and>
   sampleRect_part0 (uniformCanvas 4 3 gray128) NaN (Fin 0) (Fin 2) (Fin (-1)) = (NaN, Fin 0, NaN, Fin (-1)) \<and>
   Fin (-1) \<le> Fin 0 \<and>
   computeAverageColor_part0 (uniformCanvas 4 3 gray128) NaN (Fin 0) (Fin 2) (Fin (-1)) = Inr default_part0 \<and>
   sampleRect_part0 (uniformCanvas 4 3 gray128) NaN (Fin 0) (Fin 2) (Fin 3) = (NaN, Fin 0, NaN, Fin 3) \<and>
   \<not> (NaN \<le> Fin 0 \<or> Fin 3 \<le> Fin 0) \<and>
   computeAverageColor_part0 (uniformCanvas 4 3 gray128) NaN (Fin 0) (Fin 2) (Fin 3) = Inl TypeError"
proof -
  have 1: "sampleRect_part0 (uniformCanvas 4 3 gray128) NaN (Fin 0) (Fin 2) (Fin (-1)) = (NaN, Fin 0, NaN, Fin (-1))"
    and 2: "sampleRect_part0 (uniformCanvas 4 3 gray128) NaN (Fin 0) (Fin 2) (Fin 3) = (NaN, Fin 0, NaN, Fin 3)"
    by (simp_all add: eval_defs)
  show ?thesis
    using computeAverageColor_total [of "Fin 1" "Fin 1" PosInf "Fin 1" "uniformCanvas 4 3 gray128"]
      computeAverageColor_total [of NaN "Fin 0" "Fin 2" "Fin (-1)" "uniformCanvas 4 3 gray128"]
      computeAverageColor_total [of NaN "Fin 0" "Fin 2" "Fin 3" "uniformCanvas 4 3 gray128"]
    unfolding 1 2 by simp
qed

text \<open>
  C8 as stated fails at \<open>x = NaN\<close> with a width and a height that pass the guard: the
  comparison \<open>sw <= 0\<close> is false for a \<open>NaN\<close>, and \<open>getImageData\<close> throws.
\<close>

theorem computeAverageColor_NaN_counterexample:
  "computeAverageColor_part0 (uniformCanvas 4 3 gray128) NaN (Fin 0) (Fin 2) (Fin 3) = Inl TypeError \<and>
   computeAverageColor_script (uniformCanvas 4 3 gray128) NaN (Fin 0) (Fin 2) (Fin 3) = Inl TypeError"
  by (simp add: eval_defs)

text \<open>
  C5, as amended. Let a region of the bitmap have one colour \<open>c\<close>, and let the requested
  rectangle lie inside it with a width of at least 1. The procedural script returns \<open>c\<close>
  plus 10 on each channel, capped at 255, when the height is at least 1. The asset script
  returns \<open>c\<close> plus 15, capped at 255, when 40% of the height is at least 1 and the
  brightness \<open>(r + g + b) / 3\<close> of \<open>c\<close> lies strictly between 40 and 230.
\<close>

theorem uniform_region_color:
  fixes x y w h :: real
  assumes "rx + rw \<le> cwidth cv" "ry + rh \<le> cheight cv"
    and "\<forall>px py. rx \<le> px \<and> px < rx + rw \<and> ry \<le> py \<and> py < ry + rh \<longrightarrow> cpixel cv px py = c"
    and "real rx \<le> x" "x + w \<le> real (rx + rw)" "real ry \<le> y" "y + h \<le> real (ry + rh)"
    and "1 \<le> w"
  shows "(1 \<le> h \<longrightarrow>
            computeAverageColor_part0 cv (Fin x) (Fin y) (Fin w) (Fin h) =
              Inr \<lparr>r = Fin (real (min 255 (unat (red c) + 10))),
                   g = Fin (real (min 255 (unat (green c) + 10))),
                   b = Fin (real (min 255 (unat (blue c) + 10)))\<rparr>) \<and>
         (1 \<le> h * 0.4 \<and> 40 < real (unat (red c) + unat (green c) + unat (blue c)) / 3 \<and>
            real (unat (red c) + unat (green c) + unat (blue c)) / 3 < 230 \<longrightarrow>
            computeAverageColor_script cv (Fin x) (Fin y) (Fin w) (Fin h) =
              Inr \<lparr>r = Fin (real (min 255 (unat (red c) + 15))),
                   g = Fin (real (min 255 (unat (green c) + 15))),
                   b = Fin (real (min 255 (unat (blue c) + 15)))\<rparr>)"
  using part0_uniform_region [OF assms] script_uniform_region [OF assms] by blast

theorem uniform_region_color_witness:
  "(1::real) \<le> 4 \<and> (1::real) \<le> 3 \<and> (1::real) \<le> 3 * 0.4 \<and>
   computeAverageColor_part0 (uniformCanvas 4 3 gray128) (Fin 0) (Fin 0) (Fin 4) (Fin 3) =
     Inr \<lparr>r = Fin 138, g = Fin 138, b = Fin 138\<rparr> \<and>
   computeAverageColor_script (uniformCanvas 4 3 gray128) (Fin 0) (Fin 0) (Fin 4) (Fin 3) =
     Inr \<lparr>r = Fin 143, g = Fin 143, b = Fin 143\<rparr>"
  using uniform_region_color [where rx = 0 and rw = 4 and ry = 0 and rh = 3 and x = 0 and y = 0
      and w = 4 and h = 3 and cv = "uniformCanvas 4 3 gray128" and c = gray128]
  by (simp add: gray128_def)

text \<open>
  C5 as stated fails on rectangles whose clamped extent is empty. On a 10 by 10 bitmap of
  the mid grey, the asset script returns its default colour for the rectangle of width 10
  and height 2 (40% of the height is below 1), and the procedural script returns its
  default colour for a rectangle of width 0.5.
\<close>

theorem uniform_region_counterexample:
  "computeAverageColor_script (uniformCanvas 10 10 gray128) (Fin 0) (Fin 0) (Fin 10) (Fin 2)
     = Inr default_script \<and>
   default_script \<noteq> \<lparr>r = Fin 143, g = Fin 143, b = Fin 143\<rparr> \<and>
   computeAverageColor_part0 (uniformCanvas 10 10 gray128) (Fin 0) (Fin 0) (Fin 0.5) (Fin 2)
     = Inr default_part0 \<and>
   default_part0 \<noteq> \<lparr>r = Fin 138, g = Fin 138, b = Fin 138\<rparr>"
  by (simp add: eval_defs)

section \<open>Claims about the placement\<close>

text \<open>
  C3. For every landmark set, image and slider values, the branch of the \<open>try\<close> block
  for a detected face samples and draws at exactly the rectangle of the specification's
  formula, evaluated as the scripts evaluate every formula, in the arithmetic of doubles:
  width, height, x and y follow from the bounding box as stated, with \<open>widthFactor\<close> and
  \<open>verticalOffset\<close> in the asset script only. The rectangle is a function of the
  landmarks, the size of the image and the slider values alone. The bounding box of a
  landmark set that is not empty, with finite pixel coordinates, is the least and greatest
  of the pixel coordinates \<open>pt.x * width\<close> and of the pixel coordinates \<open>pt.y * height\<close>.
\<close>

theorem detected_rect_formula:
  "tryBlock_part0 paint inp img (Some landmarks) cv =
     sampleAndDraw_part0 paint cv
       (js_detectedRect
          (js_boundingBox (Fin (real (img_width img))) (Fin (real (img_height img))) landmarks)
          (intensityValue inp) None None) \<and>
   tryBlock_script paint atan2 inp img (Some landmarks) cv =
     sampleAndRotate_script paint atan2 inp img landmarks cv
       (js_detectedRect
          (js_boundingBox (Fin (real (img_width img))) (Fin (real (img_height img))) landmarks)
          (intensityValue inp) (Some (widthFactorValue inp)) (Some (offsetValue inp))) \<and>
   (landmarks \<noteq> [] \<and>
    map (\<lambda>pt. ptx pt * Fin (real (img_width img))) landmarks = map Fin pxs \<and>
    map (\<lambda>pt. pty pt * Fin (real (img_height img))) landmarks = map Fin pys \<longrightarrow>
      js_boundingBox (Fin (real (img_width img))) (Fin (real (img_height img))) landmarks =
        (Fin (Min (set pxs)), Fin (Max (set pxs)), Fin (Min (set pys)), Fin (Max (set pys))))"
  by (simp add: tryBlock_part0_def tryBlock_script_def detectedPath_part0_spec
      detectedPath_script_spec js_boundingBox_finite)

text \<open>
  An instance: two landmarks at (0.25, 0.25) and (0.75, 0.75) of a 400 by 300 image give
  the box from 100 to 300 and from 75 to 225. With the intensity slider at 0.3 the
  rectangle is 108 wide and 44.25 high, at x = 146 and at the double nearest to y = 207.3,
  and the sampler of the procedural script reads 108 columns and 44 rows from (146, 207).
\<close>

theorem detected_rect_formula_witness:
  "[\<lparr>ptx = Fin 0.25, pty = Fin 0.25\<rparr>, \<lparr>ptx = Fin 0.75, pty = Fin 0.75\<rparr>] \<noteq> [] \<and>
   map (\<lambda>pt. ptx pt * Fin (real (img_width (uniformImage 400 300 gray128))))
       [\<lparr>ptx = Fin 0.25, pty = Fin 0.25\<rparr>, \<lparr>ptx = Fin 0.75, pty = Fin 0.75\<rparr>] = map Fin [100, 300] \<and>
   map (\<lambda>pt. pty pt * Fin (real (img_height (uniformImage 400 300 gray128))))
       [\<lparr>ptx = Fin 0.25, pty = Fin 0.25\<rparr>, \<lparr>ptx = Fin 0.75, pty = Fin 0.75\<rparr>] = map Fin [75, 225] \<and>
   js_boundingBox (Fin 400) (Fin 300) [\<lparr>ptx = Fin 0.25, pty = Fin 0.25\<rparr>, \<lparr>ptx = Fin 0.75, pty = Fin 0.75\<rparr>]
     = (Fin 100, Fin 300, Fin 75, Fin 225) \<and>
   js_detectedRect (Fin 100, Fin 300, Fin 75, Fin 225) (double 0.3) None None
     = (Fin 146, Fin (3646860167007437 / 17592186044416), Fin 108, Fin (177 / 4)) \<and>
   tryBlock_part0 noPaint (midInputs\<lparr>intensityValue := double 0.3\<rparr>) (uniformImage 400 300 gray128)
       (Some [\<lparr>ptx = Fin 0.25, pty = Fin 0.25\<rparr>, \<lparr>ptx = Fin 0.75, pty = Fin 0.75\<rparr>]) grayRedrawn =
     sampleAndDraw_part0 noPaint grayRedrawn
       (Fin 146, Fin (3646860167007437 / 17592186044416), Fin 108, Fin (177 / 4)) \<and>
   sampleRect_part0 grayRedrawn (Fin 146) (Fin (3646860167007437 / 17592186044416)) (Fin 108) (Fin (177 / 4))
     = (Fin 146, Fin 207, Fin 108, Fin 44)"
proof -
  let ?lms = "[\<lparr>ptx = Fin 0.25, pty = Fin 0.25\<rparr>, \<lparr>ptx = Fin 0.75, pty = Fin 0.75\<rparr>]"
  have dims: "real (img_width (uniformImage 400 300 gray128)) = 400"
    "real (img_height (uniformImage 400 300 gray128)) = 300"
    by (simp_all add: img_width_def img_height_def uniformImage_def)
  have xs: "map (\<lambda>pt. ptx pt * Fin 400) ?lms = map Fin [100, 300]"
    and ys: "map (\<lambda>pt. pty pt * Fin 300) ?lms = map Fin [75, 225]"
    by (simp_all add: double_eval)
  have rect: "js_detectedRect (Fin 100, Fin 300, Fin 75, Fin 225) (double 0.3) None None
     = (Fin 146, Fin (3646860167007437 / 17592186044416), Fin 108, Fin (177 / 4))"
    by (simp add: js_detectedRect_def Let_def minus_jsnum_def double_eval)
  have smp: "sampleRect_part0 grayRedrawn (Fin 146) (Fin (3646860167007437 / 17592186044416)) (Fin 108) (Fin (177 / 4))
     = (Fin 146, Fin 207, Fin 108, Fin 44)"
    by (simp add: eval_defs grayRedrawn_uniform)
  have iv: "intensityValue (midInputs\<lparr>intensityValue := double 0.3\<rparr>) = double 0.3" by simp
  note inst = detected_rect_formula [of noPaint "midInputs\<lparr>intensityValue := double 0.3\<rparr>"
      "uniformImage 400 300 gray128" ?lms grayRedrawn flatAtan2 "[100, 300]" "[75, 225]",
      unfolded dims iv]
  from inst xs ys have box: "js_boundingBox (Fin 400) (Fin 300) ?lms = (Fin 100, Fin 300, Fin 75, Fin 225)"
    by simp
  from inst have "tryBlock_part0 noPaint (midInputs\<lparr>intensityValue := double 0.3\<rparr>) (uniformImage 400 300 gray128)
       (Some ?lms) grayRedrawn =
     sampleAndDraw_part0 noPaint grayRedrawn
       (js_detectedRect (js_boundingBox (Fin 400) (Fin 300) ?lms) (double 0.3) None None)"
    by blast
  then show ?thesis
    unfolding box rect dims using xs ys box rect smp by simp
qed

text \<open>
  C4. When the detector delivers no landmark set, the \<open>try\<close> block draws the fallback;
  when the detection throws, the \<open>catch\<close> block does. For every canvas size and slider
  values the fallback samples and draws at exactly the rectangle of the specification's
  fallback formula, evaluated in the arithmetic of doubles, with \<open>widthFactor\<close> and
  \<open>verticalOffset\<close> in the asset script only, and the result is the same whatever the
  detector delivered.
\<close>

theorem fallback_rect_formula:
  "tryBlock_part0 paint inp img None cv = drawFallback_part0 paint inp cv \<and>
   tryCatch_part0 paint inp (Thrown err cv) = drawFallback_part0 paint inp cv \<and>
   drawFallback_part0 paint inp cv =
     sampleAndDraw_part0 paint cv
       (js_fallbackRect (Fin (real (cwidth cv))) (Fin (real (cheight cv))) (intensityValue inp)
          None None) \<and>
   drawFallback_part0 paint (inp\<lparr>faceMesh := d\<rparr>) cv = drawFallback_part0 paint inp cv \<and>
   tryBlock_script paint atan2 inp img None cv = drawFallback_script paint inp cv \<and>
   tryCatch_script paint inp (Thrown err cv) = drawFallback_script paint inp cv \<and>
   drawFallback_script paint inp cv =
     sampleAndDraw_script paint inp cv
       (js_fallbackRect (Fin (real (cwidth cv))) (Fin (real (cheight cv))) (intensityValue inp)
          (Some (widthFactorValue inp)) (Some (offsetValue inp))) \<and>
   drawFallback_script paint (inp\<lparr>faceMesh := d\<rparr>) cv = drawFallback_script paint inp cv"
  using drawFallback_indep [where paint = paint and inp = inp and d = d and cv = cv]
  by (simp add: tryBlock_part0_def tryBlock_script_def tryCatch_part0_def tryCatch_script_def
      drawFallback_part0_spec drawFallback_script_spec)

text \<open>
  An instance: on a 25 by 20 canvas with the intensity slider at 0.3, width factor 1 and
  offset 0, both formulas give a rectangle 9 wide at (8, 13), of the height nearest to 3.6
  below it; the procedural script samples 9 columns and 3 rows from (8, 13).
\<close>

theorem fallback_rect_formula_witness:
  "js_fallbackRect (Fin 25) (Fin 20) (double 0.3) None None
     = (Fin 8, Fin 13, Fin 9, Fin (2026619832316723 / 562949953421312)) \<and>
   js_fallbackRect (Fin 25) (Fin 20) (double 0.3) (Some (Fin 1)) (Some (Fin 0))
     = (Fin 8, Fin 13, Fin 9, Fin (2026619832316723 / 562949953421312)) \<and>
   drawFallback_part0 noPaint (midInputs\<lparr>intensityValue := double 0.3\<rparr>) (uniformCanvas 25 20 gray128) =
     sampleAndDraw_part0 noPaint (uniformCanvas 25 20 gray128)
       (Fin 8, Fin 13, Fin 9, Fin (2026619832316723 / 562949953421312)) \<and>
   drawFallback_script noPaint (midInputs\<lparr>intensityValue := double 0.3\<rparr>) (uniformCanvas 25 20 gray128) =
     sampleAndDraw_script noPaint (midInputs\<lparr>intensityValue := double 0.3\<rparr>) (uniformCanvas 25 20 gray128)
       (Fin 8, Fin 13, Fin 9, Fin (2026619832316723 / 562949953421312)) \<and>
   sampleRect_part0 (uniformCanvas 25 20 gray128) (Fin 8) (Fin 13) (Fin 9)
       (Fin (2026619832316723 / 562949953421312)) = (Fin 8, Fin 13, Fin 9, Fin 3)"
proof -
  have rect: "js_fallbackRect (Fin 25) (Fin 20) (double 0.3) None None
     = (Fin 8, Fin 13, Fin 9, Fin (2026619832316723 / 562949953421312))"
    "js_fallbackRect (Fin 25) (Fin 20) (double 0.3) (Some (Fin 1)) (Some (Fin 0))
     = (Fin 8, Fin 13, Fin 9, Fin (2026619832316723 / 562949953421312))"
    by (simp_all add: js_fallbackRect_def Let_def minus_jsnum_def double_eval)
  have dims: "real (cwidth (uniformCanvas 25 20 gray128)) = 25" "real (cheight (uniformCanvas 25 20 gray128)) = 20"
    by simp_all
  have vals: "intensityValue (midInputs\<lparr>intensityValue := double 0.3\<rparr>) = double 0.3"
    "widthFactorValue (midInputs\<lparr>intensityValue := double 0.3\<rparr>) = Fin 1"
    "offsetValue (midInputs\<lparr>intensityValue := double 0.3\<rparr>) = Fin 0"
    by (simp_all add: midInputs_def)
  have smp: "sampleRect_part0 (uniformCanvas 25 20 gray128) (Fin 8) (Fin 13) (Fin 9)
       (Fin (2026619832316723 / 562949953421312)) = (Fin 8, Fin 13, Fin 9, Fin 3)"
    by (simp add: eval_defs)
  show ?thesis
    using fallback_rect_formula [of noPaint "midInputs\<lparr>intensityValue := double 0.3\<rparr>"
        "uniformImage 400 300 gray128" "uniformCanvas 25 20 gray128" DetectorError Hangs flatAtan2]
    unfolding dims vals rect using rect smp by simp
qed



section \<open>Claims about the assets, the controls and the rotation\<close>

text \<open>
  C7, at the input where the code departs from it. The mask has loaded; the outline has
  failed to load, so it is complete with natural width 0. The guard of \<open>drawTintedChin\<close>
  tests the natural width of the mask only: the function goes on to draw the outline on
  the offscreen canvas, which throws. The target bitmap is unchanged, but the call does
  not return.
\<close>

theorem drawTintedChin_broken_outline:
  "img_complete brokenImage \<and> naturalWidth brokenImage = 0 \<and>
   drawTintedChin paint (inp\<lparr>maskImg := uniformImage 8 8 gray128, outlineImg := brokenImage\<rparr>)
       cv x y w h fill = Thrown InvalidStateError cv"
  by (simp add: drawTintedChin_def img_complete_def naturalWidth_def brokenImage_def uniformImage_def
      offscreenChin_def)

theorem drawTintedChin_broken_outline_witness:
  "drawTintedChin noPaint (midInputs\<lparr>maskImg := uniformImage 8 8 gray128, outlineImg := brokenImage\<rparr>)
       grayRedrawn (Fin 120) (Fin 195) (Fin 160) (Fin 60) (RGBA (Fin 143) (Fin 143) (Fin 143) (Fin 1))
     = Thrown InvalidStateError grayRedrawn"
  using drawTintedChin_broken_outline [where paint = noPaint and inp = midInputs and cv = grayRedrawn
      and x = "Fin 120" and y = "Fin 195" and w = "Fin 160" and h = "Fin 60"
      and fill = "RGBA (Fin 143) (Fin 143) (Fin 143) (Fin 1)"]
  by simp

text \<open>
  C9, as amended. A run of the generate action that starts with an uploaded image and
  finishes has both controls enabled, in both scripts, whichever way it went through the
  \<open>try\<close> and \<open>catch\<close> blocks.
\<close>

theorem controls_enabled_when_finished:
  assumes "uploadedImage s \<noteq> None"
    and "generateClick_part0 paint inp s = Finished s' \<or>
         generateClick_script paint atan2 inp s = Finished s'"
  shows "\<not> generateDisabled s' \<and> \<not> downloadDisabled s'"
  using assms
  by (auto simp: generateClick_part0_def generateClick_script_def Let_def
      split: option.splits completion.splits detection.splits if_splits)

theorem controls_enabled_when_finished_witness:
  "uploadedImage grayPage \<noteq> None \<and>
   generateClick_part0 noPaint midInputs grayPage
     = Finished (grayPage\<lparr>cnv := grayRedrawn, generateDisabled := False, downloadDisabled := False\<rparr>) \<and>
   \<not> generateDisabled (grayPage\<lparr>cnv := grayRedrawn, generateDisabled := False, downloadDisabled := False\<rparr>) \<and>
   \<not> downloadDisabled (grayPage\<lparr>cnv := grayRedrawn, generateDisabled := False, downloadDisabled := False\<rparr>)"
proof -
  have img: "uploadedImage grayPage \<noteq> None" by (simp add: grayPage_def)
  have inp: "midInputs\<lparr>intensityValue := Fin (1 / 2), faceMeshLoads := True, faceMesh := Results None\<rparr>
      = midInputs"
    by (simp add: midInputs_def)
  have run: "generateClick_part0 noPaint midInputs grayPage
     = Finished (grayPage\<lparr>cnv := grayRedrawn, generateDisabled := False, downloadDisabled := False\<rparr>)"
    using gray_run_part0 [where d = "Results None" and paint = noPaint and inp = midInputs]
    by (simp add: inp grayChin_def noPaint_def)
  show ?thesis
    using controls_enabled_when_finished [OF img disjI1 [OF run]] img run by simp
qed

text \<open>
  C9 as stated fails when no image has been uploaded: the handler returns at once and
  leaves the controls as they were, here with the download control disabled.
\<close>

theorem no_image_counterexample:
  "generateClick_part0 noPaint midInputs (grayPage\<lparr>uploadedImage := None\<rparr>)
      = Finished (grayPage\<lparr>uploadedImage := None\<rparr>) \<and>
   generateClick_script noPaint flatAtan2 midInputs (grayPage\<lparr>uploadedImage := None\<rparr>)
      = Finished (grayPage\<lparr>uploadedImage := None\<rparr>) \<and>
   downloadDisabled (grayPage\<lparr>uploadedImage := None\<rparr>)"
  by (simp add: generateClick_part0_def generateClick_script_def grayPage_def)

text \<open>
  C10. In the asset script, when the assets are ready and the drawing does not throw, the
  chin is drawn rotated by the angle 0 if the landmark set has 263 points or fewer, and by
  \<open>atan2(dy, dx)\<close> of the pixel-space difference between the landmarks 263 and 33 if it
  has more.
\<close>

theorem eye_angle:
  assumes "img_complete (maskImg inp)" "img_complete (outlineImg inp)" "naturalWidth (maskImg inp) \<noteq> 0"
    and "offscreenChin (maskImg inp) (outlineImg inp) = None"
    and "\<not> offCanvasThrows (maskImg inp) (- overlayW / Fin 2) (- overlayH / Fin 2) overlayW overlayH"
  shows "(length landmarks \<le> 263 \<longrightarrow>
            drawRotatedChin paint atan2 inp img landmarks cv x y overlayW overlayH c =
              Returned (paint (DrawChinRotated (RGBA (r c) (g c) (b c) (Fin 1))
                  (x + overlayW / Fin 2) (y + overlayH / Fin 2) (Fin 0)
                  (- overlayW / Fin 2) (- overlayH / Fin 2) overlayW overlayH) cv)) \<and>
         (263 < length landmarks \<longrightarrow>
            drawRotatedChin paint atan2 inp img landmarks cv x y overlayW overlayH c =
              Returned (paint (DrawChinRotated (RGBA (r c) (g c) (b c) (Fin 1))
                  (x + overlayW / Fin 2) (y + overlayH / Fin 2)
                  (atan2 ((pty (landmarks ! 263) - pty (landmarks ! 33)) * Fin (real (img_height img)))
                         ((ptx (landmarks ! 263) - ptx (landmarks ! 33)) * Fin (real (img_width img))))
                  (- overlayW / Fin 2) (- overlayH / Fin 2) overlayW overlayH) cv))"
  using assms by (simp add: drawRotatedChin_def Let_def)

theorem eye_angle_witness:
  "img_complete (maskImg midInputs) \<and> img_complete (outlineImg midInputs) \<and>
   naturalWidth (maskImg midInputs) \<noteq> 0 \<and>
   offscreenChin (maskImg midInputs) (outlineImg midInputs) = None \<and>
   \<not> offCanvasThrows (maskImg midInputs) (- Fin 120 / Fin 2) (- Fin 48 / Fin 2) (Fin 120) (Fin 48) \<and>
   length [\<lparr>ptx = Fin 0.25, pty = Fin 0.25\<rparr>, \<lparr>ptx = Fin 0.75, pty = Fin 0.75\<rparr>] \<le> 263 \<and>
   drawRotatedChin noPaint flatAtan2 midInputs (uniformImage 400 300 gray128)
       [\<lparr>ptx = Fin 0.25, pty = Fin 0.25\<rparr>, \<lparr>ptx = Fin 0.75, pty = Fin 0.75\<rparr>] grayRedrawn
       (Fin 140) (Fin 205) (Fin 120) (Fin 48) \<lparr>r = Fin 143, g = Fin 143, b = Fin 143\<rparr> =
     Returned (noPaint (DrawChinRotated (RGBA (Fin 143) (Fin 143) (Fin 143) (Fin 1))
         (Fin 200) (Fin 229) (Fin 0) (Fin (- 60)) (Fin (- 24)) (Fin 120) (Fin 48)) grayRedrawn) \<and>
   263 < length (replicate 264 \<lparr>ptx = Fin 0.5, pty = Fin 0.5\<rparr>) \<and>
   drawRotatedChin noPaint flatAtan2 midInputs (uniformImage 400 300 gray128)
       (replicate 264 \<lparr>ptx = Fin 0.5, pty = Fin 0.5\<rparr>) grayRedrawn
       (Fin 140) (Fin 205) (Fin 120) (Fin 48) \<lparr>r = Fin 143, g = Fin 143, b = Fin 143\<rparr> =
     Returned (noPaint (DrawChinRotated (RGBA (Fin 143) (Fin 143) (Fin 143) (Fin 1))
         (Fin 200) (Fin 229) (flatAtan2 (Fin 0) (Fin 0)) (Fin (- 60)) (Fin (- 24)) (Fin 120) (Fin 48))
         grayRedrawn)"
proof -
  have ready: "img_complete (maskImg midInputs)" "img_complete (outlineImg midInputs)"
    "naturalWidth (maskImg midInputs) \<noteq> 0"
    "offscreenChin (maskImg midInputs) (outlineImg midInputs) = None"
    "\<not> offCanvasThrows (maskImg midInputs) (- Fin 120 / Fin 2) (- Fin 48 / Fin 2) (Fin 120) (Fin 48)"
    by (simp_all add: midInputs_def uniformImage_def img_complete_def naturalWidth_def
        offscreenChin_def offCanvasThrows_def img_width_def img_height_def)
  note few = eye_angle [OF ready, of "[\<lparr>ptx = Fin 0.25, pty = Fin 0.25\<rparr>, \<lparr>ptx = Fin 0.75, pty = Fin 0.75\<rparr>]"
      noPaint flatAtan2 "uniformImage 400 300 gray128" grayRedrawn "Fin 140" "Fin 205"
      "\<lparr>r = Fin 143, g = Fin 143, b = Fin 143\<rparr>"]
  note many = eye_angle [OF ready, of "replicate 264 \<lparr>ptx = Fin 0.5, pty = Fin 0.5\<rparr>"
      noPaint flatAtan2 "uniformImage 400 300 gray128" grayRedrawn "Fin 140" "Fin 205"
      "\<lparr>r = Fin 143, g = Fin 143, b = Fin 143\<rparr>"]
  show ?thesis
    using ready few many by (simp add: minus_jsnum_def double_eval)
qed

end
